theory Spec2Isabelle
  imports Main
begin

section \<open>Data model (types.ts, constants.ts)\<close>

text \<open>
  A JavaScript string is a sequence of UTF-16 code units; \<open>length\<close> and \<open>slice\<close> count
  code units. It is modelled as a \<^typ>\<open>string\<close>, one list element per code unit.
  \<open>Date.now()\<close> and \<open>uuidv4()\<close> are inputs of the operations that call them.
\<close>

datatype Role = USER | MODEL

datatype ModelId = FLASH | PRO | FLASH_LITE

record Attachment =
  mimeType :: string
  url :: string
  data :: string

text \<open>
  \<open>Message\<close>: the optional fields \<open>attachments?\<close> and \<open>isStreaming?\<close> are options
  (\<open>None\<close> is \<open>undefined\<close>). The field \<open>groundingMetadata?: any\<close> is never read or written
  by App.tsx and is left out. \<open>id\<close> and \<open>text\<close> carry a suffix.
\<close>

record Message =
  id_msg :: string
  role :: Role
  text_msg :: string
  attachments :: "Attachment list option"
  isStreaming :: "bool option"
  timestamp :: nat

text \<open>
  Message objects are the only objects App.tsx mutates after creation
  (\<open>lastMsg.text += chunkText\<close>, \<open>lastMsg.isStreaming = false\<close>), and the arrays that hold
  them are copied shallowly (\<open>[...session.messages]\<close>), so the same object is reachable from
  the previous and the next state. Messages therefore live in a store, and a messages
  array is a list of references into it. Arrays, sessions and the AppState are only ever
  rebuilt by spreading and are values.
\<close>

type_synonym ref = nat

type_synonym heap = "Message list"

definition alloc :: "Message \<Rightarrow> heap \<Rightarrow> ref \<times> heap" where
  "alloc m h = (length h, h @ [m])"

definition deref :: "heap \<Rightarrow> ref \<Rightarrow> Message option" where
  "deref h a = (if a < length h then Some (h ! a) else None)"

record ChatSession =
  id_ses :: string
  title :: string
  messages :: "ref list"
  updatedAt :: nat

record UserProfile =
  firstName :: string
  email :: string

record AppState =
  user :: "UserProfile option"
  currentSessionId :: "string option"
  sessions :: "string \<rightharpoonup> ChatSession"
  selectedModel :: ModelId
  sidebarOpen :: bool

definition DEFAULT_MODEL :: ModelId where
  "DEFAULT_MODEL = FLASH"

text \<open>
  The component's hooks: \<open>state\<close>, \<open>isGenerating\<close> and \<open>error\<close> (App.tsx 15-24), together
  with the message store.
\<close>

record App =
  state :: AppState
  isGenerating :: bool
  error :: "string option"
  store :: heap

definition initialApp :: App where
  "initialApp =
     \<lparr>state = \<lparr>user = None, currentSessionId = None, sessions = Map.empty,
                selectedModel = DEFAULT_MODEL, sidebarOpen = False\<rparr>,
      isGenerating = False, error = None, store = []\<rparr>"

text \<open>
  What a callback can throw: reading or writing a property of \<open>undefined\<close> is a
  \<open>TypeError\<close>. \<open>DanglingRef\<close> is the model's own: a reference outside the store,
  which no JavaScript value can be.
\<close>

datatype js_error = TypeError | DanglingRef

section \<open>Session store (App.tsx 51-79, 247)\<close>

text \<open>\<open>!state.currentSessionId\<close>: \<open>null\<close> and the empty string are both falsy.\<close>

definition truthy :: "string option \<Rightarrow> bool" where
  "truthy c = (case c of None \<Rightarrow> False | Some k \<Rightarrow> k \<noteq> [])"

definition createNewSession :: "string \<Rightarrow> nat \<Rightarrow> App \<Rightarrow> App" where
  "createNewSession newId now app =
     (let newSession = \<lparr>id_ses = newId, title = ''New Chat'', messages = [], updatedAt = now\<rparr>;
          prev = state app
      in app\<lparr>state := prev\<lparr>currentSessionId := Some newId,
                            sessions := (sessions prev)(newId \<mapsto> newSession),
                            sidebarOpen := False\<rparr>\<rparr>)"

text \<open>
  \<open>sessions\<close> is a plain object. Reading \<open>sessions[k]\<close> gives the session stored under \<open>k\<close>
  when there is one; otherwise the lookup goes to \<open>Object.prototype\<close>, and for the names
  below it finds a function or an object, which is truthy and has no \<open>messages\<close>; for
  any other name it gives \<open>undefined\<close>.
\<close>

definition objectPrototypeKeys :: "string list" where
  "objectPrototypeKeys =
     [''constructor'', ''hasOwnProperty'', ''isPrototypeOf'', ''propertyIsEnumerable'',
      ''toLocaleString'', ''toString'', ''valueOf'', ''__proto__'',
      ''__defineGetter__'', ''__defineSetter__'', ''__lookupGetter__'', ''__lookupSetter__'']"

datatype lookup = Own ChatSession | Inherited | Undefined

definition getSession :: "(string \<rightharpoonup> ChatSession) \<Rightarrow> string \<Rightarrow> lookup" where
  "getSession m k =
     (case m k of
        Some s \<Rightarrow> Own s
      | None \<Rightarrow> if k \<in> set objectPrototypeKeys then Inherited else Undefined)"

text \<open>
  \<open>updateCurrentSession\<close>: \<open>cid\<close> is \<open>state.currentSessionId\<close> as the closure captured it
  at render time; \<open>app\<close> is the state the queued updater runs on (\<open>prev\<close>). The updater gets
  the shallow copy \<open>{...session}\<close> (the same value) and the store, and may throw. The
  result is written under \<open>session.id\<close>, not under the captured id. An inherited value
  passes the guard \<open>if (!session)\<close>; its copy \<open>{...session}\<close> is an object with no
  fields, and every updater of App.tsx starts by reading \<open>session.messages.length\<close> or by
  spreading \<open>session.messages\<close>, which throws a TypeError.
\<close>

definition updateCurrentSession ::
  "string option \<Rightarrow> (ChatSession \<Rightarrow> heap \<Rightarrow> js_error + ChatSession \<times> heap) \<Rightarrow> App
     \<Rightarrow> js_error + App" where
  "updateCurrentSession cid updater app =
     (case cid of
        None \<Rightarrow> Inr app
      | Some k \<Rightarrow>
          if k = [] then Inr app
          else (case getSession (sessions (state app)) k of
                  Undefined \<Rightarrow> Inr app
                | Inherited \<Rightarrow> Inl TypeError
                | Own session \<Rightarrow>
                    (case updater session (store app) of
                       Inl e \<Rightarrow> Inl e
                     | Inr (updatedSession, h') \<Rightarrow>
                         Inr (app\<lparr>state := (state app)\<lparr>sessions :=
                                      (sessions (state app))(id_ses session \<mapsto> updatedSession)\<rparr>,
                                  store := h'\<rparr>))))"

definition onSelectSession :: "string \<Rightarrow> App \<Rightarrow> App" where
  "onSelectSession i app = app\<lparr>state := (state app)\<lparr>currentSessionId := Some i\<rparr>\<rparr>"

definition onToggle :: "App \<Rightarrow> App" where
  "onToggle app = app\<lparr>state := (state app)\<lparr>sidebarOpen := \<not> sidebarOpen (state app)\<rparr>\<rparr>"

definition selectModel :: "ModelId \<Rightarrow> App \<Rightarrow> App" where
  "selectModel m app = app\<lparr>state := (state app)\<lparr>selectedModel := m\<rparr>\<rparr>"

text \<open>
  \<open>handleOnboardingSubmit\<close>: \<open>tn\<close> and \<open>te\<close> are the form fields after \<open>trim()\<close>.
\<close>

definition handleOnboardingSubmit :: "string \<Rightarrow> string \<Rightarrow> App \<Rightarrow> App" where
  "handleOnboardingSubmit tn te app =
     (if tn \<noteq> [] \<and> te \<noteq> []
      then app\<lparr>state := (state app)\<lparr>user := Some \<lparr>firstName = tn, email = te\<rparr>\<rparr>\<rparr>
      else app)"

section \<open>Streaming turn controller (App.tsx 96-183)\<close>

text \<open>The arguments \<open>generateResponseStream\<close> is called with.\<close>

record GenCall =
  call_model :: ModelId
  call_history :: "ref list"
  call_text :: string
  call_attachments :: "Attachment list"

definition sliceTitle :: "string \<Rightarrow> string" where
  "sliceTitle txt = take 30 txt @ (if length txt > 30 then ''...'' else '''')"

definition addUserMessage ::
  "string \<Rightarrow> ref \<Rightarrow> nat \<Rightarrow> ChatSession \<Rightarrow> heap \<Rightarrow> js_error + ChatSession \<times> heap" where
  "addUserMessage txt userMessage now session h =
     (let newTitle = (if length (messages session) = 0 then sliceTitle txt else title session)
      in Inr (session\<lparr>title := newTitle,
                      messages := messages session @ [userMessage],
                      updatedAt := now\<rparr>, h))"

definition addPlaceholder ::
  "ref \<Rightarrow> ChatSession \<Rightarrow> heap \<Rightarrow> js_error + ChatSession \<times> heap" where
  "addPlaceholder aiPlaceholder session h =
     Inr (session\<lparr>messages := messages session @ [aiPlaceholder]\<rparr>, h)"

text \<open>
  A setter of a hook does not change the state: it queues an update, and React runs the
  queue, in order, at the next render. Objects are created at once. \<open>hooks\<close> is the
  committed state together with the store, \<open>queue\<close> the updates not yet run.
\<close>

type_synonym update = "App \<Rightarrow> js_error + App"

record Scheduled =
  hooks :: App
  queue :: "update list"

definition setError :: "string option \<Rightarrow> update" where
  "setError v app = Inr (app\<lparr>error := v\<rparr>)"

definition setIsGenerating :: "bool \<Rightarrow> update" where
  "setIsGenerating b app = Inr (app\<lparr>isGenerating := b\<rparr>)"

fun flush :: "update list \<Rightarrow> App \<Rightarrow> js_error + App" where
  "flush [] app = Inr app"
| "flush (u # us) app = (case u app of Inl e \<Rightarrow> Inl e | Inr app' \<Rightarrow> flush us app')"

text \<open>
  The body of \<open>handleSendMessage\<close> up to the call of \<open>generateResponseStream\<close> (lines
  96-148). \<open>rs\<close> is the AppState of the render whose closure runs (it gives
  \<open>state.currentSessionId\<close>, \<open>state.selectedModel\<close> and \<open>currentSession\<close>); \<open>t1\<close>, \<open>t2\<close>,
  \<open>t3\<close> are the readings of \<open>Date.now()\<close> for the user message, for \<open>updatedAt\<close> and
  for the placeholder. The result is what is queued, and either the call made to the
  service (\<open>None\<close> on the early return) or the TypeError of line 142, where
  \<open>[...currentSession.messages, userMessage]\<close> spreads the \<open>messages\<close> of an inherited
  value. What was queued before the throw stays queued.
\<close>

definition handleSendMessage_body ::
  "AppState \<Rightarrow> string \<Rightarrow> Attachment list \<Rightarrow> string \<Rightarrow> string \<Rightarrow> nat \<Rightarrow> nat \<Rightarrow> nat \<Rightarrow> Scheduled
     \<Rightarrow> Scheduled \<times> (js_error + GenCall option)" where
  "handleSendMessage_body rs txt atts userMsgId aiMsgId t1 t2 t3 r =
     (if \<not> truthy (currentSessionId rs) then (r, Inr None)
      else
        let (userMessage, h1) =
               alloc \<lparr>id_msg = userMsgId, role = USER, text_msg = txt,
                      attachments = Some atts, isStreaming = None, timestamp = t1\<rparr>
                 (store (hooks r));
            (aiPlaceholder, h2) =
               alloc \<lparr>id_msg = aiMsgId, role = MODEL, text_msg = '''',
                      attachments = None, isStreaming = Some True, timestamp = t3\<rparr> h1;
            r' = r\<lparr>hooks := (hooks r)\<lparr>store := h2\<rparr>,
                   queue := queue r @
                     [setError None,
                      setIsGenerating True,
                      updateCurrentSession (currentSessionId rs)
                        (addUserMessage txt userMessage t2),
                      updateCurrentSession (currentSessionId rs)
                        (addPlaceholder aiPlaceholder)]\<rparr>;
            currentSession =
              (case currentSessionId rs of
                 None \<Rightarrow> Undefined
               | Some k \<Rightarrow> if k = [] then Undefined else getSession (sessions rs) k)
        in case currentSession of
             Inherited \<Rightarrow> (r', Inl TypeError)
           | Own cs \<Rightarrow>
               (r', Inr (Some \<lparr>call_model = selectedModel rs,
                               call_history = messages cs @ [userMessage],
                               call_text = txt,
                               call_attachments = atts\<rparr>))
           | Undefined \<Rightarrow>
               (r', Inr (Some \<lparr>call_model = selectedModel rs,
                               call_history = [userMessage],
                               call_text = txt,
                               call_attachments = atts\<rparr>)))"

text \<open>
  \<open>handleSendMessage\<close> as one step: the body, run on the committed state \<open>app\<close> with
  nothing queued, and then the render that runs what the body queued. The result is the
  state after that render and the call made to the service; it is an error when the body
  or a queued update throws.
\<close>

definition handleSendMessage ::
  "AppState \<Rightarrow> string \<Rightarrow> Attachment list \<Rightarrow> string \<Rightarrow> string \<Rightarrow> nat \<Rightarrow> nat \<Rightarrow> nat \<Rightarrow> App
     \<Rightarrow> js_error + App \<times> GenCall option" where
  "handleSendMessage rs txt atts userMsgId aiMsgId t1 t2 t3 app =
     (let (r, outcome) =
            handleSendMessage_body rs txt atts userMsgId aiMsgId t1 t2 t3
              \<lparr>hooks = app, queue = []\<rparr>
      in case outcome of
           Inl e \<Rightarrow> Inl e
         | Inr call \<Rightarrow>
             (case flush (queue r) (hooks r) of
                Inl e \<Rightarrow> Inl e
              | Inr app' \<Rightarrow> Inr (app', call)))"


text \<open>
  The three callbacks. Each queues its updates; the definitions give their effect when
  they run. Each reads \<open>msgs[msgs.length - 1]\<close>, which is \<open>undefined\<close> on an
  empty array, and then a property of it. The writes go to the Message object itself.
\<close>

definition chunkUpdater ::
  "string \<Rightarrow> string \<Rightarrow> ChatSession \<Rightarrow> heap \<Rightarrow> js_error + ChatSession \<times> heap" where
  "chunkUpdater aiMsgId chunkText session h =
     (let msgs = messages session in
      if msgs = [] then Inl TypeError
      else
        let a = msgs ! (length msgs - 1) in
        case deref h a of
          None \<Rightarrow> Inl DanglingRef
        | Some lastMsg \<Rightarrow>
            let h' = (if id_msg lastMsg = aiMsgId
                      then h[a := lastMsg\<lparr>text_msg := text_msg lastMsg @ chunkText\<rparr>]
                      else h)
            in Inr (session\<lparr>messages := msgs\<rparr>, h'))"

definition onChunk :: "string option \<Rightarrow> string \<Rightarrow> string \<Rightarrow> App \<Rightarrow> js_error + App" where
  "onChunk cid aiMsgId chunkText app =
     updateCurrentSession cid (chunkUpdater aiMsgId chunkText) app"

definition completeUpdater :: "ChatSession \<Rightarrow> heap \<Rightarrow> js_error + ChatSession \<times> heap" where
  "completeUpdater session h =
     (let msgs = messages session in
      if msgs = [] then Inl TypeError
      else
        let a = msgs ! (length msgs - 1) in
        case deref h a of
          None \<Rightarrow> Inl DanglingRef
        | Some lastMsg \<Rightarrow>
            Inr (session\<lparr>messages := msgs\<rparr>, h[a := lastMsg\<lparr>isStreaming := Some False\<rparr>]))"

definition onComplete :: "string option \<Rightarrow> App \<Rightarrow> js_error + App" where
  "onComplete cid app = updateCurrentSession cid completeUpdater (app\<lparr>isGenerating := False\<rparr>)"

text \<open>\<open>a || b\<close> on strings: the empty string and \<open>undefined\<close> are falsy.\<close>

definition orElse :: "string option \<Rightarrow> string \<Rightarrow> string" where
  "orElse a b = (case a of None \<Rightarrow> b | Some s \<Rightarrow> if s = [] then b else s)"

definition errorUpdater :: "ChatSession \<Rightarrow> heap \<Rightarrow> js_error + ChatSession \<times> heap" where
  "errorUpdater session h =
     (let msgs = messages session in
      if msgs = [] then Inl TypeError
      else
        let a = msgs ! (length msgs - 1) in
        case deref h a of
          None \<Rightarrow> Inl DanglingRef
        | Some lastMsg \<Rightarrow>
            let m1 = lastMsg\<lparr>isStreaming := Some False\<rparr>;
                m2 = m1\<lparr>text_msg := orElse (Some (text_msg m1))
                          ''Sorry, I encountered an error processing your request.''\<rparr>
            in Inr (session\<lparr>messages := msgs\<rparr>, h[a := m2]))"

text \<open>\<open>errMessage\<close> is \<open>err.message\<close>, \<open>None\<close> when the failure carries none.\<close>

definition onError :: "string option \<Rightarrow> string option \<Rightarrow> App \<Rightarrow> js_error + App" where
  "onError cid errMessage app =
     updateCurrentSession cid errorUpdater
       (app\<lparr>isGenerating := False, error := Some (orElse errMessage ''Something went wrong'')\<rparr>)"

text \<open>
  The service calls \<open>onChunk\<close> once for each delta, in the order of arrival; a throwing
  callback ends the run.
\<close>

fun applyDeltas :: "string option \<Rightarrow> string \<Rightarrow> string list \<Rightarrow> App \<Rightarrow> js_error + App" where
  "applyDeltas cid aiMsgId [] app = Inr app"
| "applyDeltas cid aiMsgId (d # ds) app =
     (case onChunk cid aiMsgId d app of
        Inl e \<Rightarrow> Inl e
      | Inr app' \<Rightarrow> applyDeltas cid aiMsgId ds app')"

section \<open>The send protocol\<close>

text \<open>The two object literals of \<open>handleSendMessage\<close>.\<close>

definition userMsg :: "string \<Rightarrow> string \<Rightarrow> Attachment list \<Rightarrow> nat \<Rightarrow> Message" where
  "userMsg userMsgId txt atts t1 =
     \<lparr>id_msg = userMsgId, role = USER, text_msg = txt,
      attachments = Some atts, isStreaming = None, timestamp = t1\<rparr>"

definition placeholderMsg :: "string \<Rightarrow> nat \<Rightarrow> Message" where
  "placeholderMsg aiMsgId t3 =
     \<lparr>id_msg = aiMsgId, role = MODEL, text_msg = '''',
      attachments = None, isStreaming = Some True, timestamp = t3\<rparr>"

text \<open>A message counts as streaming when its \<open>isStreaming\<close> is \<open>true\<close>.\<close>

definition streaming :: "heap \<Rightarrow> ref \<Rightarrow> bool" where
  "streaming h a = (case deref h a of None \<Rightarrow> False | Some m \<Rightarrow> isStreaming m = Some True)"

definition streamingCount :: "heap \<Rightarrow> ChatSession \<Rightarrow> nat" where
  "streamingCount h s = length (filter (streaming h) (messages s))"

text \<open>
  The states the component reaches, with the turns in flight (captured session id and
  placeholder id). The side conditions are those of the collaborators:
  \<^item> \<open>uuidv4()\<close> returns a non-empty id that keys no session yet;
  \<^item> the sidebar offers the keys of \<open>sessions\<close> only;
  \<^item> a send is made from the latest render (\<open>rs = state app\<close>) and, as the spec's
    precondition has it, on a session with no turn in flight;
  \<^item> the service calls back for turns in flight only, and a terminal callback ends the
    turn.
\<close>

inductive reach :: "App \<Rightarrow> (string \<times> string) set \<Rightarrow> bool" where
  init: "reach initialApp {}"
| onboarding: "reach app fl \<Longrightarrow> reach (handleOnboardingSubmit tn te app) fl"
| toggle: "reach app fl \<Longrightarrow> reach (onToggle app) fl"
| model: "reach app fl \<Longrightarrow> reach (selectModel m app) fl"
| newChat: "reach app fl \<Longrightarrow> newId \<noteq> [] \<Longrightarrow> newId \<notin> dom (sessions (state app)) \<Longrightarrow>
     reach (createNewSession newId now app) fl"
| select: "reach app fl \<Longrightarrow> i \<in> dom (sessions (state app)) \<Longrightarrow>
     reach (onSelectSession i app) fl"
| send: "reach app fl \<Longrightarrow> currentSessionId (state app) = Some k \<Longrightarrow> k \<notin> fst ` fl \<Longrightarrow>
     handleSendMessage (state app) txt atts uid aid t1 t2 t3 app = Inr (app', Some call) \<Longrightarrow>
     reach app' (insert (k, aid) fl)"
| sendIgnored: "reach app fl \<Longrightarrow>
     handleSendMessage (state app) txt atts uid aid t1 t2 t3 app = Inr (app', None) \<Longrightarrow>
     reach app' fl"
| chunk: "reach app fl \<Longrightarrow> (k, aid) \<in> fl \<Longrightarrow>
     onChunk (Some k) aid c app = Inr app' \<Longrightarrow> reach app' fl"
| complete: "reach app fl \<Longrightarrow> (k, aid) \<in> fl \<Longrightarrow>
     onComplete (Some k) app = Inr app' \<Longrightarrow> reach app' (fl - {(k, aid)})"
| failure: "reach app fl \<Longrightarrow> (k, aid) \<in> fl \<Longrightarrow>
     onError (Some k) e app = Inr app' \<Longrightarrow> reach app' (fl - {(k, aid)})"

text \<open>
  The invariant of the protocol: every session is stored under its own id and refers to
  allocated messages; the current id keys a session; a turn in flight has a non-empty
  session whose last message is its placeholder and is the only one that may be
  streaming; a session with no turn in flight has no streaming message.
\<close>

definition wf_store :: "App \<Rightarrow> bool" where
  "wf_store app \<longleftrightarrow>
     (\<forall>k s. sessions (state app) k = Some s \<longrightarrow>
        id_ses s = k \<and> (\<forall>a \<in> set (messages s). a < length (store app)))"

definition current_ok :: "App \<Rightarrow> bool" where
  "current_ok app \<longleftrightarrow>
     (\<forall>k. currentSessionId (state app) = Some k \<longrightarrow> k \<in> dom (sessions (state app)))"

definition turns_ok :: "App \<Rightarrow> (string \<times> string) set \<Rightarrow> bool" where
  "turns_ok app fl \<longleftrightarrow>
     (\<forall>k aid. (k, aid) \<in> fl \<longrightarrow>
        k \<noteq> [] \<and> (\<forall>aid'. (k, aid') \<in> fl \<longrightarrow> aid' = aid) \<and>
        (\<exists>s m. sessions (state app) k = Some s \<and> messages s \<noteq> [] \<and>
             deref (store app) (last (messages s)) = Some m \<and> id_msg m = aid \<and>
             (\<forall>a \<in> set (butlast (messages s)). \<not> streaming (store app) a)))"

definition idle_ok :: "App \<Rightarrow> (string \<times> string) set \<Rightarrow> bool" where
  "idle_ok app fl \<longleftrightarrow>
     (\<forall>k s. sessions (state app) k = Some s \<longrightarrow> k \<notin> fst ` fl \<longrightarrow>
        (\<forall>a \<in> set (messages s). \<not> streaming (store app) a))"

definition turn_inv :: "App \<Rightarrow> (string \<times> string) set \<Rightarrow> bool" where
  "turn_inv app fl \<longleftrightarrow> wf_store app \<and> current_ok app \<and> turns_ok app fl \<and> idle_ok app fl"

text \<open>
  The states reachable when the operations are called in any order, from any render and
  for any turn, with the one condition that a session is selected by a key of
  \<open>sessions\<close>. A send is the body followed by the render that runs its queue, also when
  the body throws at line 142.
\<close>

inductive reach_ui :: "App \<Rightarrow> bool" where
  init: "reach_ui initialApp"
| onboarding: "reach_ui app \<Longrightarrow> reach_ui (handleOnboardingSubmit tn te app)"
| toggle: "reach_ui app \<Longrightarrow> reach_ui (onToggle app)"
| model: "reach_ui app \<Longrightarrow> reach_ui (selectModel m app)"
| newChat: "reach_ui app \<Longrightarrow> reach_ui (createNewSession newId now app)"
| select: "reach_ui app \<Longrightarrow> i \<in> dom (sessions (state app)) \<Longrightarrow>
     reach_ui (onSelectSession i app)"
| send: "reach_ui app \<Longrightarrow>
     handleSendMessage_body rs txt atts uid aid t1 t2 t3 \<lparr>hooks = app, queue = []\<rparr> = (r, out) \<Longrightarrow>
     flush (queue r) (hooks r) = Inr app' \<Longrightarrow> reach_ui app'"
| chunk: "reach_ui app \<Longrightarrow> onChunk cid aid c app = Inr app' \<Longrightarrow> reach_ui app'"
| complete: "reach_ui app \<Longrightarrow> onComplete cid app = Inr app' \<Longrightarrow> reach_ui app'"
| failure: "reach_ui app \<Longrightarrow> onError cid e app = Inr app' \<Longrightarrow> reach_ui app'"

section \<open>Example states\<close>

text \<open>
  After onboarding and the first \<open>createNewSession\<close>; then after sending \<open>Hi\<close>, with the
  turn \<open>a1\<close> in flight.
\<close>

definition ex_idle :: App where
  "ex_idle = createNewSession ''s1'' 1 (handleOnboardingSubmit ''Ann'' ''ann@example.org'' initialApp)"

definition ex_session :: ChatSession where
  "ex_session = \<lparr>id_ses = ''s1'', title = ''Hi'', messages = [0, 1], updatedAt = 3\<rparr>"

definition ex_streaming :: App where
  "ex_streaming =
     \<lparr>state = \<lparr>user = Some \<lparr>firstName = ''Ann'', email = ''ann@example.org''\<rparr>,
                currentSessionId = Some ''s1'',
                sessions = [''s1'' \<mapsto> ex_session],
                selectedModel = FLASH, sidebarOpen = False\<rparr>,
      isGenerating = True, error = None,
      store = [userMsg ''u1'' ''Hi'' [] 2, placeholderMsg ''a1'' 4]\<rparr>"

text \<open>
  The path to two turns on one session: while turn \<open>a1\<close> runs on \<open>s1\<close>, New Chat makes
  \<open>s2\<close> and a welcome button sends on it (turn \<open>b1\<close>); \<open>a1\<close> completes and clears
  \<open>isGenerating\<close>, which enables the input area; \<open>ex_b1_in_flight\<close> is the state then. A
  send through the input area follows (turn \<open>b2\<close>) while \<open>b1\<close> is still in flight:
  \<open>ex_two_turns\<close>.
\<close>

definition ex_prompt :: string where
  "ex_prompt = ''Explain quantum computing to a 5-year-old using simple analogies.''"

definition ex_b1_in_flight :: App where
  "ex_b1_in_flight =
     \<lparr>state = \<lparr>user = Some \<lparr>firstName = ''Ann'', email = ''ann@example.org''\<rparr>,
                currentSessionId = Some ''s2'',
                sessions = [''s1'' \<mapsto> ex_session,
                            ''s2'' \<mapsto> \<lparr>id_ses = ''s2'',
                                         title = ''Explain quantum computing to a...'',
                                         messages = [2, 3], updatedAt = 7\<rparr>],
                selectedModel = FLASH, sidebarOpen = False\<rparr>,
      isGenerating = False, error = None,
      store = [userMsg ''u1'' ''Hi'' [] 2,
               (placeholderMsg ''a1'' 4)\<lparr>isStreaming := Some False\<rparr>,
               userMsg ''u2'' ex_prompt [] 6, placeholderMsg ''b1'' 8]\<rparr>"

definition ex_two_turns :: App where
  "ex_two_turns =
     \<lparr>state = \<lparr>user = Some \<lparr>firstName = ''Ann'', email = ''ann@example.org''\<rparr>,
                currentSessionId = Some ''s2'',
                sessions = [''s1'' \<mapsto> ex_session,
                            ''s2'' \<mapsto> \<lparr>id_ses = ''s2'',
                                         title = ''Explain quantum computing to a...'',
                                         messages = [2, 3, 4, 5], updatedAt = 10\<rparr>],
                selectedModel = FLASH, sidebarOpen = False\<rparr>,
      isGenerating = True, error = None,
      store = [userMsg ''u1'' ''Hi'' [] 2,
               (placeholderMsg ''a1'' 4)\<lparr>isStreaming := Some False\<rparr>,
               userMsg ''u2'' ex_prompt [] 6, placeholderMsg ''b1'' 8,
               userMsg ''u3'' ''more'' [] 9, placeholderMsg ''b2'' 11]\<rparr>"

section \<open>The store\<close>

lemma deref_Some: "deref h a = Some m \<longleftrightarrow> a < length h \<and> h ! a = m"
  by (auto simp: deref_def)

lemma deref_update:
  "deref (h[a := m]) b = (if b = a \<and> a < length h then Some m else deref h b)"
  by (simp add: deref_def)

lemma deref_append:
  "deref (h @ ms) a = (if a < length h then deref h a else deref ms (a - length h))"
  by (auto simp: deref_def nth_append)

lemma deref_update_id:
  assumes "deref h a = Some m" "id_msg m' = id_msg m" "deref h b = Some mb"
  shows "\<exists>mb'. deref (h[a := m']) b = Some mb' \<and> id_msg mb' = id_msg mb"
  using assms by (cases "b = a") (auto simp: deref_def split: if_splits)

lemma last_index: "xs \<noteq> [] \<Longrightarrow> xs ! (length xs - Suc 0) = last xs"
  by (simp add: last_conv_nth)

lemma streaming_append: "a < length h \<Longrightarrow> streaming (h @ ms) a = streaming h a"
  by (simp add: streaming_def deref_append)

lemma streaming_userMsg:
  "\<not> streaming (h @ [userMsg uid tx atts t1, placeholderMsg aid t3]) (length h)"
  by (simp add: streaming_def deref_def userMsg_def)

lemma streaming_text:
  "deref h a = Some m \<Longrightarrow> streaming (h[a := m\<lparr>text_msg := t\<rparr>]) b = streaming h b"
  by (auto simp: streaming_def deref_update)

lemma streaming_done:
  "isStreaming m' = Some False \<Longrightarrow> streaming (h[a := m']) b \<Longrightarrow> streaming h b \<and> b \<noteq> a"
  by (cases "b = a") (auto simp: streaming_def deref_def split: if_splits)

section \<open>What each operation computes\<close>

lemma updateCurrentSession_resolved:
  "k \<noteq> [] \<Longrightarrow> sessions (state app) k = Some s \<Longrightarrow>
   updateCurrentSession (Some k) f app =
     (case f s (store app) of
        Inl e \<Rightarrow> Inl e
      | Inr (s', h') \<Rightarrow>
          Inr (app\<lparr>state := (state app)\<lparr>sessions := (sessions (state app))(id_ses s \<mapsto> s')\<rparr>,
                   store := h'\<rparr>))"
  by (simp add: updateCurrentSession_def getSession_def)

lemma updateCurrentSession_unresolved:
  "\<not> truthy cid \<or>
   (\<exists>k. cid = Some k \<and> sessions (state app) k = None \<and> k \<notin> set objectPrototypeKeys) \<Longrightarrow>
   updateCurrentSession cid f app = Inr app"
  by (auto simp: updateCurrentSession_def getSession_def truthy_def split: option.splits)

lemma updateCurrentSession_inherited:
  "k \<noteq> [] \<Longrightarrow> sessions (state app) k = None \<Longrightarrow> k \<in> set objectPrototypeKeys \<Longrightarrow>
   updateCurrentSession (Some k) f app = Inl TypeError"
  by (simp add: updateCurrentSession_def getSession_def)

lemma createNewSession_fields:
  "sessions (state (createNewSession newId now app)) =
     (sessions (state app))(newId \<mapsto>
        \<lparr>id_ses = newId, title = ''New Chat'', messages = [], updatedAt = now\<rparr>)"
  "currentSessionId (state (createNewSession newId now app)) = Some newId"
  "store (createNewSession newId now app) = store app"
  by (simp_all add: createNewSession_def Let_def)

lemma send_resolved:
  assumes "currentSessionId rs = Some k" "k \<noteq> []"
      and "sessions (state app) k = Some s" "id_ses s = k"
      and "getSession (sessions rs) k \<noteq> Inherited"
  shows "handleSendMessage rs tx atts uid aid t1 t2 t3 app =
     Inr (app\<lparr>state := (state app)\<lparr>sessions := (sessions (state app))
                  (k \<mapsto> s\<lparr>title := (if messages s = [] then sliceTitle tx else title s),
                          messages := messages s @ [length (store app), Suc (length (store app))],
                          updatedAt := t2\<rparr>)\<rparr>,
              isGenerating := True, error := None,
              store := store app @ [userMsg uid tx atts t1, placeholderMsg aid t3]\<rparr>,
          Some \<lparr>call_model = selectedModel rs,
                call_history = (case sessions rs k of Some cs \<Rightarrow> messages cs @ [length (store app)]
                                | None \<Rightarrow> [length (store app)]),
                call_text = tx, call_attachments = atts\<rparr>)"
  using assms
  by (cases app, cases s)
     (auto simp: handleSendMessage_def handleSendMessage_body_def truthy_def alloc_def
      updateCurrentSession_def getSession_def setError_def setIsGenerating_def
      addUserMessage_def addPlaceholder_def userMsg_def placeholderMsg_def Let_def
      split: option.splits if_splits)

lemma send_call_truthy:
  "handleSendMessage rs tx atts uid aid t1 t2 t3 app = Inr (app', Some call) \<Longrightarrow>
   truthy (currentSessionId rs)"
  by (auto simp: handleSendMessage_def handleSendMessage_body_def Let_def
      split: if_splits sum.splits prod.splits lookup.splits option.splits)

lemma send_ignored:
  "handleSendMessage rs tx atts uid aid t1 t2 t3 app = Inr (app', None) \<Longrightarrow> app' = app"
  by (auto simp: handleSendMessage_def handleSendMessage_body_def Let_def
      split: if_splits sum.splits prod.splits lookup.splits option.splits)

lemma onChunk_last:
  assumes "k \<noteq> []" "sessions (state app) k = Some s" "id_ses s = k"
      and "messages s \<noteq> []" "deref (store app) (last (messages s)) = Some m"
  shows "onChunk (Some k) aid c app =
     Inr (if id_msg m = aid
          then app\<lparr>store := (store app)[last (messages s) := m\<lparr>text_msg := text_msg m @ c\<rparr>]\<rparr>
          else app)"
  using assms
  by (cases app)
     (simp add: onChunk_def updateCurrentSession_def getSession_def chunkUpdater_def
        last_index map_upd_triv Let_def)

lemma onComplete_last:
  assumes "k \<noteq> []" "sessions (state app) k = Some s" "id_ses s = k"
      and "messages s \<noteq> []" "deref (store app) (last (messages s)) = Some m"
  shows "onComplete (Some k) app =
     Inr (app\<lparr>isGenerating := False,
              store := (store app)[last (messages s) := m\<lparr>isStreaming := Some False\<rparr>]\<rparr>)"
  using assms
  by (cases app)
     (simp add: onComplete_def updateCurrentSession_def getSession_def completeUpdater_def
        last_index map_upd_triv Let_def)

lemma onError_last:
  assumes "k \<noteq> []" "sessions (state app) k = Some s" "id_ses s = k"
      and "messages s \<noteq> []" "deref (store app) (last (messages s)) = Some m"
  shows "onError (Some k) e app =
     Inr (app\<lparr>isGenerating := False,
              error := Some (orElse e ''Something went wrong''),
              store := (store app)[last (messages s) :=
                 m\<lparr>isStreaming := Some False,
                   text_msg := (if text_msg m = [] then
                      ''Sorry, I encountered an error processing your request.''
                      else text_msg m)\<rparr>]\<rparr>)"
  using assms
  by (cases app, cases m)
     (simp add: onError_def updateCurrentSession_def getSession_def errorUpdater_def
        last_index map_upd_triv orElse_def Let_def)

lemma applyDeltas_concat:
  assumes "k \<noteq> []" "sessions (state app) k = Some s" "id_ses s = k"
      and "messages s \<noteq> []" "deref (store app) (last (messages s)) = Some m"
      and "id_msg m = aid"
  shows "applyDeltas (Some k) aid ds app =
     Inr (app\<lparr>store := (store app)[last (messages s) := m\<lparr>text_msg := text_msg m @ concat ds\<rparr>]\<rparr>)"
  using assms
proof (induction ds arbitrary: app m)
  case Nil
  then show ?case by (cases app) (auto simp: deref_Some)
next
  case (Cons d ds)
  let ?a = "last (messages s)"
  let ?m = "m\<lparr>text_msg := text_msg m @ d\<rparr>"
  let ?app = "app\<lparr>store := (store app)[?a := ?m]\<rparr>"
  have step: "onChunk (Some k) aid d app = Inr ?app"
    using Cons.prems by (simp add: onChunk_last)
  have "applyDeltas (Some k) aid ds ?app =
     Inr (?app\<lparr>store := (store ?app)[?a := ?m\<lparr>text_msg := text_msg ?m @ concat ds\<rparr>]\<rparr>)"
    using Cons.prems by (intro Cons.IH) (simp_all add: deref_update deref_Some)
  then show ?case using step by simp
qed

lemma applyDeltas_other:
  assumes "k \<noteq> []" "sessions (state app) k = Some s" "id_ses s = k"
      and "messages s \<noteq> []" "deref (store app) (last (messages s)) = Some m"
      and "id_msg m \<noteq> aid"
  shows "applyDeltas (Some k) aid ds app = Inr app"
  using assms by (induction ds) (simp_all add: onChunk_last)

text \<open>
  The callbacks return the AppState they were given, as a value: where sessions are stored
  under their own ids, the entry written back holds the same title, the same references
  and the same timestamp. All they change is the message object in the store.
\<close>

lemma update_keeps_state:
  assumes w: "\<forall>k s. sessions (state app) k = Some s \<longrightarrow> id_ses s = k"
      and u: "\<And>s h s' h'. f s h = Inr (s', h') \<Longrightarrow> s' = s"
      and r: "updateCurrentSession cid f app = Inr app'"
  shows "state app' = state app"
proof (cases "truthy cid \<and> (\<exists>k s. cid = Some k \<and> sessions (state app) k = Some s)")
  case False
  with r have "app' = app"
    by (auto simp: updateCurrentSession_def getSession_def truthy_def
        split: option.splits if_splits)
  then show ?thesis by simp
next
  case True
  then obtain k s where k: "cid = Some k" "k \<noteq> []" "sessions (state app) k = Some s"
    by (auto simp: truthy_def)
  from w k(3) have ids: "id_ses s = k" by simp
  from r k obtain s' h' where f: "f s (store app) = Inr (s', h')"
    and a: "app' = app\<lparr>state := (state app)\<lparr>sessions := (sessions (state app))(id_ses s \<mapsto> s')\<rparr>,
                        store := h'\<rparr>"
    by (auto simp: updateCurrentSession_def getSession_def split: sum.splits)
  from u[OF f] have "s' = s" .
  with a ids k(3) show ?thesis by (simp add: map_upd_triv)
qed

lemma updaters_same_session:
  "chunkUpdater aid c s h = Inr (s', h') \<Longrightarrow> s' = s"
  "completeUpdater s h = Inr (s', h') \<Longrightarrow> s' = s"
  "errorUpdater s h = Inr (s', h') \<Longrightarrow> s' = s"
  by (auto simp: chunkUpdater_def completeUpdater_def errorUpdater_def Let_def
      split: if_splits option.splits)

lemma callbacks_keep_state:
  assumes w: "\<forall>k s. sessions (state app) k = Some s \<longrightarrow> id_ses s = k"
  shows "onChunk cid aid c app = Inr app' \<Longrightarrow> state app' = state app"
    and "onComplete cid app = Inr app' \<Longrightarrow> state app' = state app"
    and "onError cid e app = Inr app' \<Longrightarrow> state app' = state app"
proof -
  assume "onChunk cid aid c app = Inr app'"
  then have r: "updateCurrentSession cid (chunkUpdater aid c) app = Inr app'"
    by (simp add: onChunk_def)
  show "state app' = state app"
    by (rule update_keeps_state[OF w updaters_same_session(1) r])
next
  let ?app = "app\<lparr>isGenerating := False\<rparr>"
  assume "onComplete cid app = Inr app'"
  then have r: "updateCurrentSession cid completeUpdater ?app = Inr app'"
    by (simp add: onComplete_def)
  have "\<forall>k s. sessions (state ?app) k = Some s \<longrightarrow> id_ses s = k"
    using w by simp
  from update_keeps_state[OF this updaters_same_session(2) r]
  show "state app' = state app" by simp
next
  let ?app = "app\<lparr>isGenerating := False, error := Some (orElse e ''Something went wrong'')\<rparr>"
  assume "onError cid e app = Inr app'"
  then have r: "updateCurrentSession cid errorUpdater ?app = Inr app'"
    by (simp add: onError_def)
  have "\<forall>k s. sessions (state ?app) k = Some s \<longrightarrow> id_ses s = k"
    using w by simp
  from update_keeps_state[OF this updaters_same_session(3) r]
  show "state app' = state app" by simp
qed

section \<open>The invariant holds in every reachable state\<close>

lemma inv_init: "turn_inv initialApp {}"
  by (simp add: turn_inv_def wf_store_def current_ok_def turns_ok_def idle_ok_def initialApp_def)

lemma inv_cong:
  assumes "turn_inv app fl" "sessions (state app') = sessions (state app)"
      and "currentSessionId (state app') = currentSessionId (state app)"
      and "store app' = store app"
  shows "turn_inv app' fl"
  using assms by (simp add: turn_inv_def wf_store_def current_ok_def turns_ok_def idle_ok_def)

lemma inv_onboarding: "turn_inv app fl \<Longrightarrow> turn_inv (handleOnboardingSubmit tn te app) fl"
  by (erule inv_cong) (simp_all add: handleOnboardingSubmit_def)

lemma inv_toggle: "turn_inv app fl \<Longrightarrow> turn_inv (onToggle app) fl"
  by (erule inv_cong) (simp_all add: onToggle_def)

lemma inv_model: "turn_inv app fl \<Longrightarrow> turn_inv (selectModel m app) fl"
  by (erule inv_cong) (simp_all add: selectModel_def)

lemma inv_select:
  "turn_inv app fl \<Longrightarrow> i \<in> dom (sessions (state app)) \<Longrightarrow> turn_inv (onSelectSession i app) fl"
  by (simp add: turn_inv_def wf_store_def current_ok_def turns_ok_def idle_ok_def
      onSelectSession_def)

lemma inv_newChat:
  assumes "turn_inv app fl" "newId \<notin> dom (sessions (state app))"
  shows "turn_inv (createNewSession newId now app) fl"
proof -
  have nfl: "\<And>aid. (newId, aid) \<notin> fl"
    using assms by (force simp: turn_inv_def turns_ok_def)
  have "wf_store (createNewSession newId now app)"
    using assms(1)
    by (auto simp: turn_inv_def wf_store_def createNewSession_fields split: if_splits)
  moreover have "current_ok (createNewSession newId now app)"
    by (simp add: current_ok_def createNewSession_fields)
  moreover have "turns_ok (createNewSession newId now app) fl"
    using assms(1) nfl unfolding turn_inv_def turns_ok_def
    by (auto simp: createNewSession_fields)
  moreover have "idle_ok (createNewSession newId now app) fl"
    using assms(1)
    by (auto simp: turn_inv_def idle_ok_def createNewSession_fields split: if_splits)
  ultimately show ?thesis by (simp add: turn_inv_def)
qed

lemma inv_send:
  assumes i: "turn_inv app fl" and c: "currentSessionId (state app) = Some k"
      and nfl: "k \<notin> fst ` fl"
      and r: "handleSendMessage (state app) tx atts uid aid t1 t2 t3 app = Inr (app', Some call)"
  shows "turn_inv app' (insert (k, aid) fl)"
proof -
  have k: "k \<noteq> []"
    using send_call_truthy[OF r] c by (simp add: truthy_def)
  obtain s where s: "sessions (state app) k = Some s"
    using i c by (auto simp: turn_inv_def current_ok_def)
  have ids: "id_ses s = k" and refs: "\<forall>a \<in> set (messages s). a < length (store app)"
    using i s by (auto simp: turn_inv_def wf_store_def)
  have quiet: "\<forall>a \<in> set (messages s). \<not> streaming (store app) a"
    using i s nfl by (auto simp: turn_inv_def idle_ok_def)
  let ?n = "length (store app)"
  let ?s' = "s\<lparr>title := (if messages s = [] then sliceTitle tx else title s),
               messages := messages s @ [?n, Suc ?n], updatedAt := t2\<rparr>"
  let ?h' = "store app @ [userMsg uid tx atts t1, placeholderMsg aid t3]"
  have eq: "app' = app\<lparr>state := (state app)\<lparr>sessions := (sessions (state app))(k \<mapsto> ?s')\<rparr>,
                      isGenerating := True, error := None, store := ?h'\<rparr>"
    using r s by (simp add: send_resolved[OF c k s ids] getSession_def)
  have f: "sessions (state app') = (sessions (state app))(k \<mapsto> ?s')"
    "store app' = ?h'" "currentSessionId (state app') = Some k"
    using c by (simp_all add: eq)
  have "wf_store app'"
    using i refs ids unfolding turn_inv_def wf_store_def f
    by (auto simp: less_Suc_eq split: if_splits)
  moreover have "current_ok app'"
    unfolding current_ok_def f by simp
  moreover have "turns_ok app' (insert (k, aid) fl)"
    unfolding turns_ok_def f
  proof (intro allI impI)
    fix k' aid' assume m: "(k', aid') \<in> insert (k, aid) fl"
    show "k' \<noteq> [] \<and> (\<forall>a. (k', a) \<in> insert (k, aid) fl \<longrightarrow> a = aid') \<and>
        (\<exists>sa ma. ((sessions (state app))(k \<mapsto> ?s')) k' = Some sa \<and> messages sa \<noteq> [] \<and>
           deref ?h' (last (messages sa)) = Some ma \<and> id_msg ma = aid' \<and>
           (\<forall>a \<in> set (butlast (messages sa)). \<not> streaming ?h' a))"
    proof (cases "k' = k")
      case True
      then have "aid' = aid" using m nfl by (force simp: image_iff)
      moreover have "\<forall>a \<in> set (messages s @ [?n]). \<not> streaming ?h' a"
        using quiet refs by (auto simp: streaming_append streaming_userMsg)
      moreover have "deref ?h' (Suc ?n) = Some (placeholderMsg aid t3)"
        by (simp add: deref_def nth_append)
      moreover have "id_msg (placeholderMsg aid t3) = aid"
        by (simp add: placeholderMsg_def)
      ultimately show ?thesis using True k nfl
        by (force simp: butlast_append image_iff)
    next
      case False
      then have m': "(k', aid') \<in> fl" using m by simp
      then obtain sa ma where sa: "sessions (state app) k' = Some sa" "messages sa \<noteq> []"
          "deref (store app) (last (messages sa)) = Some ma" "id_msg ma = aid'"
          "\<forall>a \<in> set (butlast (messages sa)). \<not> streaming (store app) a"
        and u: "k' \<noteq> []" "\<forall>a. (k', a) \<in> fl \<longrightarrow> a = aid'"
        using i unfolding turn_inv_def turns_ok_def by blast
      have v: "\<forall>a \<in> set (messages sa). a < length (store app)"
        using i sa(1) by (auto simp: turn_inv_def wf_store_def)
      then have "\<forall>a \<in> set (butlast (messages sa)). \<not> streaming ?h' a"
        using sa(5) by (metis in_set_butlastD streaming_append)
      moreover have "deref ?h' (last (messages sa)) = Some ma"
        using v sa(2,3) by (simp add: deref_append)
      ultimately show ?thesis using False sa u by auto
    qed
  qed
  moreover have "idle_ok app' (insert (k, aid) fl)"
    unfolding idle_ok_def f
  proof (intro allI impI ballI)
    fix k' sa a
    assume sa: "((sessions (state app))(k \<mapsto> ?s')) k' = Some sa"
      and n: "k' \<notin> fst ` insert (k, aid) fl" and a: "a \<in> set (messages sa)"
    from n have ne: "k' \<noteq> k" and n': "k' \<notin> fst ` fl" by auto
    from sa ne have sa': "sessions (state app) k' = Some sa" by simp
    have "a < length (store app)" using i sa' a by (auto simp: turn_inv_def wf_store_def)
    moreover have "\<not> streaming (store app) a"
      using i sa' n' a by (auto simp: turn_inv_def idle_ok_def)
    ultimately show "\<not> streaming ?h' a" by (simp add: streaming_append)
  qed
  ultimately show ?thesis by (simp add: turn_inv_def)
qed

lemma turn_target:
  assumes "turn_inv app fl" "(k, aid) \<in> fl"
  obtains s m where "k \<noteq> []" "sessions (state app) k = Some s" "id_ses s = k"
    "messages s \<noteq> []" "deref (store app) (last (messages s)) = Some m" "id_msg m = aid"
proof -
  from assms obtain s m where s: "k \<noteq> []" "sessions (state app) k = Some s" "messages s \<noteq> []"
      "deref (store app) (last (messages s)) = Some m" "id_msg m = aid"
    unfolding turn_inv_def turns_ok_def by blast
  from assms(1) s(2) have "id_ses s = k"
    by (auto simp: turn_inv_def wf_store_def)
  with s show thesis using that by blast
qed

lemma inv_text:
  assumes i: "turn_inv app fl" and d: "deref (store app) a = Some m"
  shows "turn_inv (app\<lparr>store := (store app)[a := m\<lparr>text_msg := t\<rparr>]\<rparr>) fl"
proof -
  let ?app = "app\<lparr>store := (store app)[a := m\<lparr>text_msg := t\<rparr>]\<rparr>"
  have keep: "\<And>b mb. deref (store app) b = Some mb \<Longrightarrow>
      \<exists>mb'. deref (store ?app) b = Some mb' \<and> id_msg mb' = id_msg mb"
    using deref_update_id[OF d, of "m\<lparr>text_msg := t\<rparr>"] by simp
  have "wf_store ?app" "current_ok ?app" "idle_ok ?app fl"
    using i d by (simp_all add: turn_inv_def wf_store_def current_ok_def idle_ok_def streaming_text)
  moreover have "turns_ok ?app fl"
    unfolding turns_ok_def
  proof (intro allI impI)
    fix k aid assume "(k, aid) \<in> fl"
    then obtain s mb where s: "k \<noteq> []" "\<forall>aid'. (k, aid') \<in> fl \<longrightarrow> aid' = aid"
        "sessions (state app) k = Some s" "messages s \<noteq> []"
        "deref (store app) (last (messages s)) = Some mb" "id_msg mb = aid"
        "\<forall>a \<in> set (butlast (messages s)). \<not> streaming (store app) a"
      using i unfolding turn_inv_def turns_ok_def by blast
    from keep[OF s(5)] obtain mb' where
      "deref (store ?app) (last (messages s)) = Some mb'" "id_msg mb' = id_msg mb" by blast
    with s d show "k \<noteq> [] \<and> (\<forall>aid'. (k, aid') \<in> fl \<longrightarrow> aid' = aid) \<and>
        (\<exists>s m. sessions (state ?app) k = Some s \<and> messages s \<noteq> [] \<and>
           deref (store ?app) (last (messages s)) = Some m \<and> id_msg m = aid \<and>
           (\<forall>a \<in> set (butlast (messages s)). \<not> streaming (store ?app) a))"
      by (auto simp: streaming_text)
  qed
  ultimately show ?thesis by (simp add: turn_inv_def)
qed

lemma inv_terminal:
  assumes i: "turn_inv app fl" and t: "(k, aid) \<in> fl" and s: "sessions (state app) k = Some s"
      and dm: "deref (store app) (last (messages s)) = Some m"
      and d: "isStreaming m' = Some False" and idm: "id_msg m' = id_msg m"
      and f: "sessions (state app') = sessions (state app)"
             "currentSessionId (state app') = currentSessionId (state app)"
             "store app' = (store app)[last (messages s) := m']"
  shows "turn_inv app' (fl - {(k, aid)})"
proof -
  have mono: "\<And>b. \<not> streaming (store app) b \<Longrightarrow> \<not> streaming (store app') b"
    using streaming_done[OF d] unfolding f by blast
  have off: "\<not> streaming (store app') (last (messages s))"
    using streaming_done[OF d] unfolding f by blast
  have keep: "\<And>b mb. deref (store app) b = Some mb \<Longrightarrow>
      \<exists>mb'. deref (store app') b = Some mb' \<and> id_msg mb' = id_msg mb"
    unfolding f by (rule deref_update_id[OF dm idm])
  have "wf_store app'"
    using i by (simp add: turn_inv_def wf_store_def f)
  moreover have "current_ok app'"
    using i by (simp add: turn_inv_def current_ok_def f)
  moreover have "turns_ok app' (fl - {(k, aid)})"
    unfolding turns_ok_def
  proof (intro allI impI)
    fix k' aid' assume "(k', aid') \<in> fl - {(k, aid)}"
    then have m: "(k', aid') \<in> fl" by simp
    then obtain sa mb where sa: "k' \<noteq> []" "\<forall>x. (k', x) \<in> fl \<longrightarrow> x = aid'"
        "sessions (state app) k' = Some sa" "messages sa \<noteq> []"
        "deref (store app) (last (messages sa)) = Some mb" "id_msg mb = aid'"
        "\<forall>a \<in> set (butlast (messages sa)). \<not> streaming (store app) a"
      using i unfolding turn_inv_def turns_ok_def by blast
    from keep[OF sa(5)] obtain mb' where
      "deref (store app') (last (messages sa)) = Some mb'" "id_msg mb' = id_msg mb" by blast
    with sa mono show "k' \<noteq> [] \<and> (\<forall>x. (k', x) \<in> fl - {(k, aid)} \<longrightarrow> x = aid') \<and>
        (\<exists>s m. sessions (state app') k' = Some s \<and> messages s \<noteq> [] \<and>
           deref (store app') (last (messages s)) = Some m \<and> id_msg m = aid' \<and>
           (\<forall>a \<in> set (butlast (messages s)). \<not> streaming (store app') a))"
      by (auto simp: f(1))
  qed
  moreover have "idle_ok app' (fl - {(k, aid)})"
    unfolding idle_ok_def f(1)
  proof (intro allI impI ballI)
    fix k' sa a
    assume sa: "sessions (state app) k' = Some sa" and n: "k' \<notin> fst ` (fl - {(k, aid)})"
      and a: "a \<in> set (messages sa)"
    show "\<not> streaming (store app') a"
    proof (cases "k' = k")
      case True
      then have eq: "sa = s" using sa s by simp
      from i t obtain s0 where "sessions (state app) k = Some s0" "messages s0 \<noteq> []"
          "\<forall>a \<in> set (butlast (messages s0)). \<not> streaming (store app) a"
        unfolding turn_inv_def turns_ok_def by blast
      with s have ne: "messages s \<noteq> []"
        and bl: "\<forall>a \<in> set (butlast (messages s)). \<not> streaming (store app) a"
        by simp_all
      from a eq ne have "a \<in> set (butlast (messages s)) \<or> a = last (messages s)"
        by (metis append_butlast_last_id Un_iff set_append empty_iff empty_set set_ConsD)
      then show ?thesis using bl mono off by blast
    next
      case False
      then have "k' \<notin> fst ` fl" using n by force
      then have "\<not> streaming (store app) a"
        using i sa a by (auto simp: turn_inv_def idle_ok_def)
      then show ?thesis by (rule mono)
    qed
  qed
  ultimately show ?thesis by (simp add: turn_inv_def)
qed

lemma reach_inv: "reach app fl \<Longrightarrow> turn_inv app fl"
proof (induction rule: reach.induct)
  case init
  show ?case by (rule inv_init)
next
  case (onboarding app fl tn te)
  then show ?case by (simp add: inv_onboarding)
next
  case (toggle app fl)
  then show ?case by (simp add: inv_toggle)
next
  case (model app fl m)
  then show ?case by (simp add: inv_model)
next
  case (newChat app fl newId now)
  then show ?case by (simp add: inv_newChat)
next
  case (select app fl i)
  then show ?case by (simp add: inv_select)
next
  case (send app fl k tx atts uid aid t1 t2 t3 app' call)
  then show ?case by (blast intro: inv_send)
next
  case (sendIgnored app fl tx atts uid aid t1 t2 t3 app')
  then show ?case by (auto dest: send_ignored)
next
  case (chunk app fl k aid c app')
  from chunk.IH chunk.hyps(2) obtain s m where
    "k \<noteq> []" "sessions (state app) k = Some s" "id_ses s = k"
    "messages s \<noteq> []" "deref (store app) (last (messages s)) = Some m" "id_msg m = aid"
    by (rule turn_target)
  then show ?case using chunk.IH chunk.hyps(3)
    by (auto simp: onChunk_last inv_text split: if_splits)
next
  case (complete app fl k aid app')
  from complete.IH complete.hyps(2) obtain s m where
    tm: "k \<noteq> []" "sessions (state app) k = Some s" "id_ses s = k"
    "messages s \<noteq> []" "deref (store app) (last (messages s)) = Some m" and "id_msg m = aid"
    by (rule turn_target)
  show ?case
    using complete.hyps(3) unfolding onComplete_last[OF tm]
    by (intro inv_terminal[OF complete.IH complete.hyps(2) tm(2) tm(5),
          where m' = "m\<lparr>isStreaming := Some False\<rparr>"]) auto
next
  case (failure app fl k aid e app')
  from failure.IH failure.hyps(2) obtain s m where
    tm: "k \<noteq> []" "sessions (state app) k = Some s" "id_ses s = k"
    "messages s \<noteq> []" "deref (store app) (last (messages s)) = Some m" and "id_msg m = aid"
    by (rule turn_target)
  show ?case
    using failure.hyps(3) unfolding onError_last[OF tm]
    by (intro inv_terminal[OF failure.IH failure.hyps(2) tm(2) tm(5),
          where m' = "m\<lparr>isStreaming := Some False,
                   text_msg := (if text_msg m = [] then
                      ''Sorry, I encountered an error processing your request.''
                      else text_msg m)\<rparr>"]) auto
qed

section \<open>The example states are reachable\<close>

lemma ex_idle_eq:
  "ex_idle =
     \<lparr>state = \<lparr>user = Some \<lparr>firstName = ''Ann'', email = ''ann@example.org''\<rparr>,
                currentSessionId = Some ''s1'',
                sessions = [''s1'' \<mapsto>
                  \<lparr>id_ses = ''s1'', title = ''New Chat'', messages = [], updatedAt = 1\<rparr>],
                selectedModel = FLASH, sidebarOpen = False\<rparr>,
      isGenerating = False, error = None, store = []\<rparr>"
  by (simp add: ex_idle_def createNewSession_def handleOnboardingSubmit_def initialApp_def
      DEFAULT_MODEL_def Let_def)

lemma ex_send:
  "handleSendMessage (state ex_idle) ''Hi'' [] ''u1'' ''a1'' 2 3 4 ex_idle =
     Inr (ex_streaming,
          Some \<lparr>call_model = FLASH, call_history = [0], call_text = ''Hi'',
                call_attachments = []\<rparr>)"
  by (simp add: ex_idle_eq ex_streaming_def ex_session_def handleSendMessage_def
      handleSendMessage_body_def truthy_def alloc_def updateCurrentSession_def getSession_def
      setError_def setIsGenerating_def addUserMessage_def addPlaceholder_def userMsg_def
      placeholderMsg_def sliceTitle_def Let_def)

lemma reach_ex_idle: "reach ex_idle {}"
  unfolding ex_idle_def
  by (intro reach.newChat reach.onboarding reach.init)
     (simp_all add: handleOnboardingSubmit_def initialApp_def)

lemma reach_ex_streaming: "reach ex_streaming {(''s1'', ''a1'')}"
  using reach.send[OF reach_ex_idle _ _ ex_send, of "''s1''"]
  by (simp add: ex_idle_eq)

lemma ex_idle_target:
  "currentSessionId (state ex_idle) = Some ''s1''"
  "''s1'' \<noteq> []"
  "sessions (state ex_idle) ''s1'' =
     Some \<lparr>id_ses = ''s1'', title = ''New Chat'', messages = [], updatedAt = 1\<rparr>"
  "id_ses \<lparr>id_ses = ''s1'', title = ''New Chat'', messages = [], updatedAt = 1\<rparr> = ''s1''"
  by (simp_all add: ex_idle_eq)

lemma ex_streaming_target:
  "sessions (state ex_streaming) ''s1'' = Some ex_session"
  "id_ses ex_session = ''s1''"
  "messages ex_session \<noteq> []"
  "deref (store ex_streaming) (last (messages ex_session)) = Some (placeholderMsg ''a1'' 4)"
  by (simp_all add: ex_streaming_def ex_session_def deref_def)


lemma ex_idle_lookup: "getSession (sessions (state ex_idle)) ''s1'' \<noteq> Inherited"
  by (simp add: ex_idle_eq getSession_def)

lemma ex_b1_path:
  "(case handleSendMessage (state (createNewSession ''s2'' 5 ex_streaming)) ex_prompt []
           ''u2'' ''b1'' 6 7 8 (createNewSession ''s2'' 5 ex_streaming) of
      Inl err \<Rightarrow> False
    | Inr (app', call) \<Rightarrow> call \<noteq> None \<and> onComplete (Some ''s1'') app' = Inr ex_b1_in_flight)"
  by (simp add: createNewSession_def ex_streaming_def ex_session_def ex_b1_in_flight_def
      ex_prompt_def handleSendMessage_def handleSendMessage_body_def truthy_def alloc_def
      updateCurrentSession_def getSession_def setError_def setIsGenerating_def
      addUserMessage_def addPlaceholder_def userMsg_def placeholderMsg_def sliceTitle_def
      onComplete_def completeUpdater_def deref_def Let_def eval_nat_numeral)
     (auto simp: fun_eq_iff)

lemma ex_two_turns_path:
  "handleSendMessage (state ex_b1_in_flight) ''more'' [] ''u3'' ''b2'' 9 10 11 ex_b1_in_flight =
     Inr (ex_two_turns,
          Some \<lparr>call_model = FLASH, call_history = [2, 3, 4], call_text = ''more'',
                call_attachments = []\<rparr>)"
  by (simp add: ex_b1_in_flight_def ex_two_turns_def ex_session_def
      handleSendMessage_def handleSendMessage_body_def truthy_def alloc_def
      updateCurrentSession_def getSession_def setError_def setIsGenerating_def
      addUserMessage_def addPlaceholder_def userMsg_def placeholderMsg_def sliceTitle_def
      Let_def eval_nat_numeral)

section \<open>Sends as body and render\<close>

lemma send_body_resolved:
  assumes "currentSessionId rs = Some k" "k \<noteq> []"
  shows "handleSendMessage_body rs tx atts uid aid t1 t2 t3 \<lparr>hooks = app, queue = []\<rparr> =
     (\<lparr>hooks = app\<lparr>store := store app @ [userMsg uid tx atts t1, placeholderMsg aid t3]\<rparr>,
       queue = [setError None, setIsGenerating True,
                updateCurrentSession (Some k) (addUserMessage tx (length (store app)) t2),
                updateCurrentSession (Some k) (addPlaceholder (Suc (length (store app))))]\<rparr>,
      (case getSession (sessions rs) k of
         Inherited \<Rightarrow> Inl TypeError
       | Own cs \<Rightarrow> Inr (Some \<lparr>call_model = selectedModel rs,
                               call_history = messages cs @ [length (store app)],
                               call_text = tx, call_attachments = atts\<rparr>)
       | Undefined \<Rightarrow> Inr (Some \<lparr>call_model = selectedModel rs,
                                   call_history = [length (store app)],
                                   call_text = tx, call_attachments = atts\<rparr>)))"
  using assms
  by (simp add: handleSendMessage_body_def truthy_def alloc_def userMsg_def placeholderMsg_def
      Let_def split: lookup.splits)

lemma send_body_ignored:
  "\<not> truthy (currentSessionId rs) \<Longrightarrow>
   handleSendMessage_body rs tx atts uid aid t1 t2 t3 r = (r, Inr None)"
  by (simp add: handleSendMessage_body_def)

lemma send_queue_flushed:
  assumes "k \<noteq> []" "sessions (state app) k = Some s" "id_ses s = k"
  shows "flush [setError None, setIsGenerating True,
                updateCurrentSession (Some k) (addUserMessage tx n t2),
                updateCurrentSession (Some k) (addPlaceholder p)] app =
     Inr (app\<lparr>state := (state app)\<lparr>sessions := (sessions (state app))
                  (k \<mapsto> s\<lparr>title := (if messages s = [] then sliceTitle tx else title s),
                          messages := messages s @ [n, p],
                          updatedAt := t2\<rparr>)\<rparr>,
              isGenerating := True, error := None\<rparr>)"
  using assms
  by (cases app, cases s)
     (simp add: setError_def setIsGenerating_def updateCurrentSession_def getSession_def
        addUserMessage_def addPlaceholder_def Let_def)

lemma update_grows:
  assumes "updateCurrentSession cid f app = Inr app'"
  shows "currentSessionId (state app') = currentSessionId (state app) \<and>
         dom (sessions (state app)) \<subseteq> dom (sessions (state app'))"
  using assms
  by (auto simp: updateCurrentSession_def getSession_def
      split: option.splits if_splits sum.splits lookup.splits)

lemma current_ok_grows:
  assumes "current_ok app"
      and "currentSessionId (state app') = currentSessionId (state app) \<and>
           dom (sessions (state app)) \<subseteq> dom (sessions (state app'))"
  shows "current_ok app'"
  using assms by (auto simp: current_ok_def)

lemma send_grows:
  assumes b: "handleSendMessage_body rs tx atts uid aid t1 t2 t3 \<lparr>hooks = app, queue = []\<rparr> =
                (r, out)"
      and f: "flush (queue r) (hooks r) = Inr app'"
  shows "currentSessionId (state app') = currentSessionId (state app) \<and>
         dom (sessions (state app)) \<subseteq> dom (sessions (state app'))"
proof (cases "truthy (currentSessionId rs)")
  case False
  with b f show ?thesis by (auto simp: send_body_ignored)
next
  case True
  then obtain k where k: "currentSessionId rs = Some k" "k \<noteq> []"
    by (auto simp: truthy_def split: option.splits)
  let ?h = "app\<lparr>store := store app @ [userMsg uid tx atts t1, placeholderMsg aid t3]\<rparr>"
  let ?u1 = "updateCurrentSession (Some k) (addUserMessage tx (length (store app)) t2)"
  let ?u2 = "updateCurrentSession (Some k) (addPlaceholder (Suc (length (store app))))"
  from b have r: "hooks r = ?h"
    "queue r = [setError None, setIsGenerating True, ?u1, ?u2]"
    unfolding send_body_resolved[OF k] by auto
  from f obtain a1 a2 where
    1: "?u1 (?h\<lparr>error := None, isGenerating := True\<rparr>) = Inr a1" and
    2: "?u2 a1 = Inr a2" and 3: "app' = a2"
    unfolding r by (auto simp: setError_def setIsGenerating_def split: sum.splits)
  from update_grows[OF 1] update_grows[OF 2] 3 show ?thesis by auto
qed

lemma send_reach_ui:
  assumes "reach_ui app" "handleSendMessage rs tx atts uid aid t1 t2 t3 app = Inr (app', call)"
  shows "reach_ui app'"
proof -
  obtain r out where b:
    "handleSendMessage_body rs tx atts uid aid t1 t2 t3 \<lparr>hooks = app, queue = []\<rparr> = (r, out)"
    by (cases "handleSendMessage_body rs tx atts uid aid t1 t2 t3 \<lparr>hooks = app, queue = []\<rparr>")
  with assms(2) have "flush (queue r) (hooks r) = Inr app'"
    by (auto simp: handleSendMessage_def split: sum.splits)
  with assms(1) b show ?thesis by (rule reach_ui.send)
qed

lemma reach_ui_current_ok: "reach_ui app \<Longrightarrow> current_ok app"
proof (induction rule: reach_ui.induct)
  case init
  show ?case by (simp add: current_ok_def initialApp_def)
next
  case (onboarding app tn te)
  then show ?case by (simp add: current_ok_def handleOnboardingSubmit_def)
next
  case (toggle app)
  then show ?case by (simp add: current_ok_def onToggle_def)
next
  case (model app m)
  then show ?case by (simp add: current_ok_def selectModel_def)
next
  case (newChat app newId now)
  show ?case by (simp add: current_ok_def createNewSession_fields)
next
  case (select app i)
  then show ?case by (simp add: current_ok_def onSelectSession_def)
next
  case (send app rs tx atts uid aid t1 t2 t3 r out app')
  from send.IH send_grows[OF send.hyps(2,3)] show ?case by (rule current_ok_grows)
next
  case (chunk app cid aid c app')
  from chunk.hyps(2) have "updateCurrentSession cid (chunkUpdater aid c) app = Inr app'"
    by (simp add: onChunk_def)
  from chunk.IH update_grows[OF this] show ?case by (rule current_ok_grows)
next
  case (complete app cid app')
  from complete.hyps(2)
  have "updateCurrentSession cid completeUpdater (app\<lparr>isGenerating := False\<rparr>) = Inr app'"
    by (simp add: onComplete_def)
  from update_grows[OF this] complete.IH show ?case by (auto simp: current_ok_def)
next
  case (failure app cid e app')
  from failure.hyps(2)
  have "updateCurrentSession cid errorUpdater
          (app\<lparr>isGenerating := False, error := Some (orElse e ''Something went wrong'')\<rparr>) =
        Inr app'"
    by (simp add: onError_def)
  from update_grows[OF this] failure.IH show ?case by (auto simp: current_ok_def)
qed

lemma reach_ui_ex_two_turns: "reach_ui ex_two_turns"
proof -
  have 0: "reach_ui ex_idle"
    unfolding ex_idle_def
    by (intro reach_ui.newChat reach_ui.onboarding reach_ui.init)
  have 1: "reach_ui ex_streaming"
    by (rule send_reach_ui[OF 0 ex_send])
  let ?n = "createNewSession ''s2'' 5 ex_streaming"
  have 2: "reach_ui ?n" by (rule reach_ui.newChat[OF 1])
  obtain a call where 3:
    "handleSendMessage (state ?n) ex_prompt [] ''u2'' ''b1'' 6 7 8 ?n = Inr (a, call)"
    "onComplete (Some ''s1'') a = Inr ex_b1_in_flight"
    using ex_b1_path
    by (cases "handleSendMessage (state ?n) ex_prompt [] ''u2'' ''b1'' 6 7 8 ?n") auto
  have 4: "reach_ui a" by (rule send_reach_ui[OF 2 3(1)])
  have 5: "reach_ui ex_b1_in_flight" by (rule reach_ui.complete[OF 4 3(2)])
  show ?thesis by (rule send_reach_ui[OF 5 ex_two_turns_path])
qed

section \<open>Terminal callbacks under the protocol\<close>

text \<open>
  While every session has at most one turn in flight, the last message of a turn's
  session is that turn's placeholder, and a terminal callback writes to it.
\<close>

lemma onComplete_in_protocol:
  assumes "reach app fl" "(k, aid) \<in> fl"
  shows "\<exists>s m. sessions (state app) k = Some s \<and> messages s \<noteq> [] \<and>
         deref (store app) (last (messages s)) = Some m \<and> id_msg m = aid \<and>
         onComplete (Some k) app =
           Inr (app\<lparr>isGenerating := False,
                    store := (store app)[last (messages s) :=
                       m\<lparr>isStreaming := Some False\<rparr>]\<rparr>)"
proof -
  from reach_inv[OF assms(1)] assms(2) obtain s m where
    tm: "k \<noteq> []" "sessions (state app) k = Some s" "id_ses s = k"
    "messages s \<noteq> []" "deref (store app) (last (messages s)) = Some m" and i: "id_msg m = aid"
    by (rule turn_target)
  show ?thesis using tm i onComplete_last[OF tm] by blast
qed

lemma onError_in_protocol:
  assumes "reach app fl" "(k, aid) \<in> fl"
  shows "\<exists>s m. sessions (state app) k = Some s \<and> messages s \<noteq> [] \<and>
         deref (store app) (last (messages s)) = Some m \<and> id_msg m = aid \<and>
         onError (Some k) e app =
           Inr (app\<lparr>isGenerating := False,
                    error := Some (orElse e ''Something went wrong''),
                    store := (store app)[last (messages s) :=
                       m\<lparr>isStreaming := Some False,
                         text_msg := (if text_msg m = []
                            then ''Sorry, I encountered an error processing your request.''
                            else text_msg m)\<rparr>]\<rparr>)"
proof -
  from reach_inv[OF assms(1)] assms(2) obtain s m where
    tm: "k \<noteq> []" "sessions (state app) k = Some s" "id_ses s = k"
    "messages s \<noteq> []" "deref (store app) (last (messages s)) = Some m" and i: "id_msg m = aid"
    by (rule turn_target)
  show ?thesis using tm i onError_last[OF tm, of e] by blast
qed

lemma ex_two_turns_target:
  "''s2'' \<noteq> []"
  "sessions (state ex_two_turns) ''s2'' =
     Some \<lparr>id_ses = ''s2'', title = ''Explain quantum computing to a...'',
           messages = [2, 3, 4, 5], updatedAt = 10\<rparr>"
  "id_ses \<lparr>id_ses = ''s2'', title = ''Explain quantum computing to a...'',
           messages = [2, 3, 4, 5], updatedAt = 10\<rparr> = ''s2''"
  "messages \<lparr>id_ses = ''s2'', title = ''Explain quantum computing to a...'',
           messages = [2, 3, 4, 5], updatedAt = 10\<rparr> \<noteq> []"
  "deref (store ex_two_turns)
     (last (messages \<lparr>id_ses = ''s2'', title = ''Explain quantum computing to a...'',
           messages = [2, 3, 4, 5], updatedAt = 10\<rparr>)) = Some (placeholderMsg ''b2'' 11)"
  by (simp_all add: ex_two_turns_def deref_def)

section \<open>Remarks\<close>

text \<open>
  The precondition of the protocol matters: a second send on a session whose turn is
  still in flight leaves two streaming messages.
\<close>

lemma second_send_two_streaming:
  "(case handleSendMessage (state ex_streaming) ''again'' [] ''u2'' ''a2'' 5 6 7 ex_streaming of
      Inl err \<Rightarrow> False
    | Inr (app', call) \<Rightarrow>
        map_option (streamingCount (store app')) (sessions (state app') ''s1'') = Some 2)"
proof -
  have c: "currentSessionId (state ex_streaming) = Some ''s1''"
    by (simp add: ex_streaming_def)
  have k: "''s1'' \<noteq> []" by simp
  have l: "getSession (sessions (state ex_streaming)) ''s1'' \<noteq> Inherited"
    by (simp add: getSession_def ex_streaming_target(1))
  show ?thesis
    by (simp only: send_resolved[OF c k ex_streaming_target(1,2) l])
       (simp add: ex_streaming_def ex_session_def streamingCount_def streaming_def deref_def
          userMsg_def placeholderMsg_def)
qed

text \<open>
  \<open>handleSendMessage\<close> itself has no guard on its input: called with empty text and no
  attachments on an active session it calls the service and both messages are appended.
\<close>

lemma handleSendMessage_no_input_guard:
  "(case handleSendMessage (state ex_idle) '''' [] ''u1'' ''a1'' 2 3 4 ex_idle of
      Inl err \<Rightarrow> False
    | Inr (app', call) \<Rightarrow>
        call = Some \<lparr>call_model = FLASH, call_history = [0], call_text = '''',
                      call_attachments = []\<rparr> \<and>
        app' \<noteq> ex_idle \<and>
        map_option messages (sessions (state app') ''s1'') = Some [0, 1] \<and>
        store app' = [userMsg ''u1'' '''' [] 2, placeholderMsg ''a1'' 4])"
  by (simp only: send_resolved[OF ex_idle_target ex_idle_lookup]) (simp add: ex_idle_eq)

section \<open>Claims\<close>

text \<open>
  C1. Where the captured session resolves and has a last message \<open>m\<close>, a delta is appended
  to the text of \<open>m\<close> when the id of \<open>m\<close> is the placeholder's id, and the call changes
  nothing at all when it is not. Deltas applied in the order received leave the text of
  \<open>m\<close> followed by their concatenation.
\<close>

theorem onChunk_appends_iff_placeholder_last:
  assumes "k \<noteq> []" "sessions (state app) k = Some s" "id_ses s = k"
      and "messages s \<noteq> []" "deref (store app) (last (messages s)) = Some m"
  shows "onChunk (Some k) aid c app =
           Inr (if id_msg m = aid
                then app\<lparr>store := (store app)[last (messages s) :=
                            m\<lparr>text_msg := text_msg m @ c\<rparr>]\<rparr>
                else app) \<and>
         applyDeltas (Some k) aid ds app =
           Inr (if id_msg m = aid
                then app\<lparr>store := (store app)[last (messages s) :=
                            m\<lparr>text_msg := text_msg m @ concat ds\<rparr>]\<rparr>
                else app)"
proof (cases "id_msg m = aid")
  case True
  then show ?thesis
    using onChunk_last[OF assms, of aid c] applyDeltas_concat[OF assms True, of ds] by simp
next
  case False
  then show ?thesis
    using onChunk_last[OF assms, of aid c] applyDeltas_other[OF assms False, of ds] by simp
qed

theorem onChunk_appends_iff_placeholder_last_witness:
  "deref (store ex_streaming) (last (messages ex_session)) = Some (placeholderMsg ''a1'' 4) \<and>
   text_msg (placeholderMsg ''a1'' 4) = '''' \<and>
   applyDeltas (Some ''s1'') ''a1'' [''Hel'', ''lo''] ex_streaming =
     Inr (ex_streaming\<lparr>store := [userMsg ''u1'' ''Hi'' [] 2,
                                   (placeholderMsg ''a1'' 4)\<lparr>text_msg := ''Hello''\<rparr>]\<rparr>) \<and>
   onChunk (Some ''s1'') ''a2'' ''Hel'' ex_streaming = Inr ex_streaming"
  using onChunk_appends_iff_placeholder_last[OF _ ex_streaming_target,
          of "''a1''" "''Hel''" "[''Hel'', ''lo'']"]
        onChunk_appends_iff_placeholder_last[OF _ ex_streaming_target,
          of "''a2''" "''Hel''" "[]"]
        ex_streaming_target(4)
  by (simp add: placeholderMsg_def ex_streaming_def ex_session_def del: applyDeltas.simps)

text \<open>
  C2. In every reachable state, every session has at most one message whose
  \<open>isStreaming\<close> is \<open>true\<close>. (The reachable states are those of the protocol in which a
  send is made only on a session with no turn in flight.)
\<close>

theorem at_most_one_streaming:
  assumes "reach app fl" "sessions (state app) k = Some s"
  shows "streamingCount (store app) s \<le> 1"
proof (cases "k \<in> fst ` fl")
  case True
  then obtain aid where "(k, aid) \<in> fl" by auto
  with reach_inv[OF assms(1)] obtain s0 where
    "sessions (state app) k = Some s0" "messages s0 \<noteq> []"
    "\<forall>a \<in> set (butlast (messages s0)). \<not> streaming (store app) a"
    unfolding turn_inv_def turns_ok_def by blast
  with assms(2) have ne: "messages s \<noteq> []"
    and q: "\<forall>a \<in> set (butlast (messages s)). \<not> streaming (store app) a"
    by simp_all
  from q have "filter (streaming (store app)) (butlast (messages s)) = []"
    by (simp add: filter_empty_conv)
  moreover from ne have "messages s = butlast (messages s) @ [last (messages s)]"
    by simp
  ultimately have "length (filter (streaming (store app)) (messages s)) \<le> 1"
    by (metis (no_types, lifting) append_Nil filter.simps filter_append le_numeral_extra(4)
        length_Cons list.size(3) zero_le One_nat_def)
  then show ?thesis by (simp add: streamingCount_def)
next
  case False
  with reach_inv[OF assms(1)] assms(2)
  have "\<forall>a \<in> set (messages s). \<not> streaming (store app) a"
    by (auto simp: turn_inv_def idle_ok_def)
  then have "filter (streaming (store app)) (messages s) = []"
    by (simp add: filter_empty_conv)
  then show ?thesis by (simp add: streamingCount_def)
qed

theorem at_most_one_streaming_witness:
  "reach ex_streaming {(''s1'', ''a1'')} \<and>
   sessions (state ex_streaming) ''s1'' = Some ex_session \<and>
   streamingCount (store ex_streaming) ex_session \<le> 1"
  using at_most_one_streaming[OF reach_ex_streaming ex_streaming_target(1)]
        reach_ex_streaming ex_streaming_target(1)
  by simp

text \<open>
  C3, at the failing input. In \<open>ex_two_turns\<close> the session \<open>s2\<close> holds the placeholder of
  turn \<open>b1\<close> (message 3) and, after it, that of turn \<open>b2\<close> (message 5), both empty and
  streaming. The completion of turn \<open>b1\<close> clears \<open>isGenerating\<close> and sets
  \<open>isStreaming = false\<close> on message 5, the placeholder of \<open>b2\<close>; the placeholder of \<open>b1\<close>
  is left as it was, streaming.
\<close>

theorem onComplete_misses_its_placeholder:
  "deref (store ex_two_turns) 3 = Some (placeholderMsg ''b1'' 8) \<and>
   deref (store ex_two_turns) 5 = Some (placeholderMsg ''b2'' 11) \<and>
   isStreaming (placeholderMsg ''b1'' 8) = Some True \<and>
   onComplete (Some ''s2'') ex_two_turns =
     Inr (ex_two_turns\<lparr>isGenerating := False,
            store := [userMsg ''u1'' ''Hi'' [] 2,
                      (placeholderMsg ''a1'' 4)\<lparr>isStreaming := Some False\<rparr>,
                      userMsg ''u2'' ex_prompt [] 6,
                      placeholderMsg ''b1'' 8,
                      userMsg ''u3'' ''more'' [] 9,
                      (placeholderMsg ''b2'' 11)\<lparr>isStreaming := Some False\<rparr>]\<rparr>)"
  by (simp add: onComplete_last[OF ex_two_turns_target])
     (simp add: ex_two_turns_def deref_def placeholderMsg_def)

text \<open>
  C4, at the failing input. In \<open>ex_two_turns\<close> (see C3) the failure of turn \<open>b1\<close> clears
  \<open>isGenerating\<close> and sets the banner, but writes \<open>isStreaming = false\<close> and the apology
  to message 5, the placeholder of turn \<open>b2\<close>; the placeholder of \<open>b1\<close>, which has no
  text, is left empty and streaming.
\<close>

theorem onError_misses_its_placeholder:
  "deref (store ex_two_turns) 3 = Some (placeholderMsg ''b1'' 8) \<and>
   deref (store ex_two_turns) 5 = Some (placeholderMsg ''b2'' 11) \<and>
   text_msg (placeholderMsg ''b1'' 8) = '''' \<and>
   isStreaming (placeholderMsg ''b1'' 8) = Some True \<and>
   onError (Some ''s2'') (Some ''quota exceeded'') ex_two_turns =
     Inr (ex_two_turns\<lparr>isGenerating := False, error := Some ''quota exceeded'',
            store := [userMsg ''u1'' ''Hi'' [] 2,
                      (placeholderMsg ''a1'' 4)\<lparr>isStreaming := Some False\<rparr>,
                      userMsg ''u2'' ex_prompt [] 6,
                      placeholderMsg ''b1'' 8,
                      userMsg ''u3'' ''more'' [] 9,
                      (placeholderMsg ''b2'' 11)\<lparr>isStreaming := Some False,
                         text_msg :=
                           ''Sorry, I encountered an error processing your request.''\<rparr>]\<rparr>)"
  by (simp add: onError_last[OF ex_two_turns_target])
     (simp add: ex_two_turns_def deref_def placeholderMsg_def orElse_def)

text \<open>
  C5. A send of \<open>tx\<close> on an active session whose messages list is empty sets the title
  to the first 30 code units of \<open>tx\<close> followed by \<open>...\<close> when \<open>tx\<close> is longer than 30, and
  to \<open>tx\<close> itself otherwise; a send on a session whose messages list is not empty leaves
  the title as it was. After any send the list is not empty, so no later send rewrites
  the title. This is the state after the render that runs the updates the send queued;
  the send also returns it together with the call to the service, unless the render
  that made the send found an inherited property under the id.
\<close>

theorem send_title_once:
  assumes "currentSessionId rs = Some k" "k \<noteq> []"
      and "sessions (state app) k = Some s" "id_ses s = k"
  shows "\<exists>app' s'.
     (\<exists>r out. handleSendMessage_body rs tx atts uid aid t1 t2 t3 \<lparr>hooks = app, queue = []\<rparr> =
                 (r, out) \<and>
              flush (queue r) (hooks r) = Inr app') \<and>
     (getSession (sessions rs) k \<noteq> Inherited \<longrightarrow>
        (\<exists>call. handleSendMessage rs tx atts uid aid t1 t2 t3 app = Inr (app', Some call))) \<and>
     sessions (state app') k = Some s' \<and>
     title s' = (if messages s = []
                 then (if length tx > 30 then take 30 tx @ ''...'' else tx)
                 else title s) \<and>
     messages s' \<noteq> []"
proof -
  let ?n = "length (store app)"
  let ?h = "app\<lparr>store := store app @ [userMsg uid tx atts t1, placeholderMsg aid t3]\<rparr>"
  let ?s' = "s\<lparr>title := (if messages s = [] then sliceTitle tx else title s),
               messages := messages s @ [?n, Suc ?n], updatedAt := t2\<rparr>"
  let ?app' = "?h\<lparr>state := (state ?h)\<lparr>sessions := (sessions (state ?h))(k \<mapsto> ?s')\<rparr>,
                   isGenerating := True, error := None\<rparr>"
  have f: "flush [setError None, setIsGenerating True,
                updateCurrentSession (Some k) (addUserMessage tx ?n t2),
                updateCurrentSession (Some k) (addPlaceholder (Suc ?n))] ?h = Inr ?app'"
    using assms(2-4) by (intro send_queue_flushed) simp_all
  have 1: "\<exists>r out. handleSendMessage_body rs tx atts uid aid t1 t2 t3
             \<lparr>hooks = app, queue = []\<rparr> = (r, out) \<and> flush (queue r) (hooks r) = Inr ?app'"
    unfolding send_body_resolved[OF assms(1,2)] using f by simp
  have 2: "getSession (sessions rs) k \<noteq> Inherited \<longrightarrow>
        (\<exists>call. handleSendMessage rs tx atts uid aid t1 t2 t3 app = Inr (?app', Some call))"
  proof
    assume l: "getSession (sessions rs) k \<noteq> Inherited"
    show "\<exists>call. handleSendMessage rs tx atts uid aid t1 t2 t3 app = Inr (?app', Some call)"
      unfolding send_resolved[OF assms l] by (cases app) simp
  qed
  have 3: "sessions (state ?app') k = Some ?s'"
    "title ?s' = (if messages s = []
                 then (if length tx > 30 then take 30 tx @ ''...'' else tx)
                 else title s)"
    "messages ?s' \<noteq> []"
    by (simp_all add: sliceTitle_def)
  from 1 2 3 show ?thesis by blast
qed

theorem send_title_once_witness:
  "currentSessionId (state ex_idle) = Some ''s1'' \<and>
   getSession (sessions (state ex_idle)) ''s1'' \<noteq> Inherited \<and>
   (\<exists>app' call s'.
     handleSendMessage (state ex_idle) ''Plan a 5-day itinerary for a trip to Kyoto'' []
        ''u1'' ''a1'' 2 3 4 ex_idle = Inr (app', Some call) \<and>
     sessions (state app') ''s1'' = Some s' \<and>
     title s' = ''Plan a 5-day itinerary for a t...'' \<and>
     messages s' \<noteq> [])"
proof -
  from send_title_once[OF ex_idle_target,
      of "''Plan a 5-day itinerary for a trip to Kyoto''" "[]" "''u1''" "''a1''" 2 3 4]
    ex_idle_lookup
  obtain app' call s' where
    "handleSendMessage (state ex_idle) ''Plan a 5-day itinerary for a trip to Kyoto'' []
        ''u1'' ''a1'' 2 3 4 ex_idle = Inr (app', Some call)"
    "sessions (state app') ''s1'' = Some s'"
    "title s' = ''Plan a 5-day itinerary for a t...''"
    "messages s' \<noteq> []"
    by auto
  then show ?thesis using ex_idle_target(1) ex_idle_lookup by blast
qed

text \<open>
  C6, as the code has it. \<open>onSelectSession\<close> sets the current session id to the id it is
  given, whether or not that id keys a session, and changes nothing else. When the id
  keys a session the current id keys a session afterwards, and in every state reached by
  the operations in any order, with sessions selected by keys of \<open>sessions\<close> only, the
  current id, when set, keys a session.
\<close>

theorem onSelectSession_sets_current_id:
  "onSelectSession i app = app\<lparr>state := (state app)\<lparr>currentSessionId := Some i\<rparr>\<rparr> \<and>
   (i \<in> dom (sessions (state app)) \<longrightarrow> current_ok (onSelectSession i app)) \<and>
   (reach_ui app \<longrightarrow> current_ok app)"
proof (intro conjI impI)
  show "onSelectSession i app = app\<lparr>state := (state app)\<lparr>currentSessionId := Some i\<rparr>\<rparr>"
    by (simp add: onSelectSession_def)
next
  assume "i \<in> dom (sessions (state app))"
  then show "current_ok (onSelectSession i app)"
    by (simp add: current_ok_def onSelectSession_def)
next
  assume "reach_ui app"
  then show "current_ok app" by (rule reach_ui_current_ok)
qed

theorem onSelectSession_sets_current_id_witness:
  "currentSessionId (state ex_two_turns) = Some ''s2'' \<and>
   ''s1'' \<in> dom (sessions (state ex_two_turns)) \<and>
   currentSessionId (state (onSelectSession ''s1'' ex_two_turns)) = Some ''s1'' \<and>
   current_ok (onSelectSession ''s1'' ex_two_turns) \<and>
   reach_ui ex_two_turns \<and>
   current_ok ex_two_turns"
proof -
  note T = onSelectSession_sets_current_id[of "''s1''" ex_two_turns]
  have c: "currentSessionId (state ex_two_turns) = Some ''s2''"
    by (simp add: ex_two_turns_def)
  have d: "''s1'' \<in> dom (sessions (state ex_two_turns))"
    by (simp add: ex_two_turns_def)
  from T have 0: "currentSessionId (state (onSelectSession ''s1'' ex_two_turns)) = Some ''s1''"
    by simp
  from T d have 1: "current_ok (onSelectSession ''s1'' ex_two_turns)" by blast
  from T reach_ui_ex_two_turns have 2: "current_ok ex_two_turns" by blast
  from c d 0 1 2 reach_ui_ex_two_turns show ?thesis by blast
qed

text \<open>
  C6 as stated fails: selecting an id that keys no session is not a no-op. It becomes the
  current id, and the current id then keys no session.
\<close>

theorem onSelectSession_unknown_id_counterexample:
  "''ghost'' \<notin> dom (sessions (state ex_idle)) \<and>
   onSelectSession ''ghost'' ex_idle \<noteq> ex_idle \<and>
   currentSessionId (state (onSelectSession ''ghost'' ex_idle)) = Some ''ghost'' \<and>
   \<not> current_ok (onSelectSession ''ghost'' ex_idle)"
  by (simp add: ex_idle_eq onSelectSession_def current_ok_def)



text \<open>
  C8, at the failing input. In \<open>ex_streaming\<close> the session \<open>s1\<close> refers to the messages 0
  and 1, and message 1 is the placeholder with empty text. After \<open>onChunk\<close> with the delta
  \<open>Hel\<close> the AppState is the same value, with the same references, and message 1, the
  object the previous state refers to, reads \<open>Hel\<close>: it was written in place.
\<close>

theorem onChunk_mutates_previous_message:
  "sessions (state ex_streaming) ''s1'' = Some ex_session \<and>
   messages ex_session = [0, 1] \<and>
   deref (store ex_streaming) 1 = Some (placeholderMsg ''a1'' 4) \<and>
   text_msg (placeholderMsg ''a1'' 4) = '''' \<and>
   (case onChunk (Some ''s1'') ''a1'' ''Hel'' ex_streaming of
      Inl err \<Rightarrow> False
    | Inr app' \<Rightarrow>
        state app' = state ex_streaming \<and>
        deref (store app') 1 = Some ((placeholderMsg ''a1'' 4)\<lparr>text_msg := ''Hel''\<rparr>))"
  by (simp add: onChunk_last[OF _ ex_streaming_target] ex_streaming_target)
     (simp add: ex_streaming_def ex_session_def placeholderMsg_def deref_def)

text \<open>
  C9, as the code has it. A send on an active session creates the user message and the
  placeholder and queues, in this order, the append of the user message (role USER, the
  sent text and attachments) and the append of the placeholder (role MODEL, empty text,
  \<open>isStreaming = true\<close>); then it calls the generation service. At the call the AppState
  is still the one before the send. Once the queue has run, the session's messages list
  is longer by exactly these two references, in that order; no other session's entry and
  no message object that existed before is changed. The history passed to the service is
  the messages list of the session as the render saw it, followed by the user message.
\<close>

theorem send_queues_user_then_placeholder:
  assumes "currentSessionId rs = Some k" "k \<noteq> []"
      and "sessions (state app) k = Some s" "id_ses s = k"
      and "getSession (sessions rs) k \<noteq> Inherited"
  shows "\<exists>r call app' s'.
     handleSendMessage_body rs tx atts uid aid t1 t2 t3 \<lparr>hooks = app, queue = []\<rparr> =
       (r, Inr (Some call)) \<and>
     state (hooks r) = state app \<and>
     queue r = [setError None, setIsGenerating True,
                updateCurrentSession (Some k) (addUserMessage tx (length (store app)) t2),
                updateCurrentSession (Some k) (addPlaceholder (Suc (length (store app))))] \<and>
     flush (queue r) (hooks r) = Inr app' \<and>
     sessions (state app') k = Some s' \<and>
     messages s' = messages s @ [length (store app), Suc (length (store app))] \<and>
     deref (store app') (length (store app)) =
       Some \<lparr>id_msg = uid, role = USER, text_msg = tx, attachments = Some atts,
             isStreaming = None, timestamp = t1\<rparr> \<and>
     deref (store app') (Suc (length (store app))) =
       Some \<lparr>id_msg = aid, role = MODEL, text_msg = '''', attachments = None,
             isStreaming = Some True, timestamp = t3\<rparr> \<and>
     (\<forall>k'. k' \<noteq> k \<longrightarrow> sessions (state app') k' = sessions (state app) k') \<and>
     (\<forall>a. a < length (store app) \<longrightarrow> deref (store app') a = deref (store app) a) \<and>
     call_history call =
       (case sessions rs k of Some cs \<Rightarrow> messages cs @ [length (store app)]
        | None \<Rightarrow> [length (store app)])"
proof -
  let ?n = "length (store app)"
  let ?h = "app\<lparr>store := store app @ [userMsg uid tx atts t1, placeholderMsg aid t3]\<rparr>"
  let ?q = "[setError None, setIsGenerating True,
             updateCurrentSession (Some k) (addUserMessage tx ?n t2),
             updateCurrentSession (Some k) (addPlaceholder (Suc ?n))]"
  let ?s' = "s\<lparr>title := (if messages s = [] then sliceTitle tx else title s),
               messages := messages s @ [?n, Suc ?n], updatedAt := t2\<rparr>"
  let ?app' = "?h\<lparr>state := (state ?h)\<lparr>sessions := (sessions (state ?h))(k \<mapsto> ?s')\<rparr>,
                   isGenerating := True, error := None\<rparr>"
  let ?call = "\<lparr>call_model = selectedModel rs,
                call_history = (case sessions rs k of Some cs \<Rightarrow> messages cs @ [?n]
                                | None \<Rightarrow> [?n]),
                call_text = tx, call_attachments = atts\<rparr>"
  have b: "handleSendMessage_body rs tx atts uid aid t1 t2 t3 \<lparr>hooks = app, queue = []\<rparr> =
       (\<lparr>hooks = ?h, queue = ?q\<rparr>, Inr (Some ?call))"
    unfolding send_body_resolved[OF assms(1,2)] using assms(5)
    by (simp add: getSession_def split: option.splits if_splits)
  have f: "flush ?q ?h = Inr ?app'"
    using assms(2-4) by (intro send_queue_flushed) simp_all
  have "state (hooks \<lparr>hooks = ?h, queue = ?q\<rparr>) = state app"
    "queue \<lparr>hooks = ?h, queue = ?q\<rparr> = ?q"
    "flush (queue \<lparr>hooks = ?h, queue = ?q\<rparr>) (hooks \<lparr>hooks = ?h, queue = ?q\<rparr>) = Inr ?app'"
    "sessions (state ?app') k = Some ?s'"
    "messages ?s' = messages s @ [?n, Suc ?n]"
    "deref (store ?app') ?n =
       Some \<lparr>id_msg = uid, role = USER, text_msg = tx, attachments = Some atts,
             isStreaming = None, timestamp = t1\<rparr>"
    "deref (store ?app') (Suc ?n) =
       Some \<lparr>id_msg = aid, role = MODEL, text_msg = '''', attachments = None,
             isStreaming = Some True, timestamp = t3\<rparr>"
    "\<forall>k'. k' \<noteq> k \<longrightarrow> sessions (state ?app') k' = sessions (state app) k'"
    "\<forall>a. a < ?n \<longrightarrow> deref (store ?app') a = deref (store app) a"
    "call_history ?call =
       (case sessions rs k of Some cs \<Rightarrow> messages cs @ [?n] | None \<Rightarrow> [?n])"
    using f by (simp_all add: deref_def nth_append userMsg_def placeholderMsg_def)
  with b show ?thesis by blast
qed

theorem send_queues_user_then_placeholder_witness:
  "currentSessionId (state ex_idle) = Some ''s1'' \<and>
   getSession (sessions (state ex_idle)) ''s1'' \<noteq> Inherited \<and>
   (\<exists>r call app' s'.
     handleSendMessage_body (state ex_idle) ''Hi'' [] ''u1'' ''a1'' 2 3 4
         \<lparr>hooks = ex_idle, queue = []\<rparr> = (r, Inr (Some call)) \<and>
     state (hooks r) = state ex_idle \<and>
     flush (queue r) (hooks r) = Inr app' \<and>
     sessions (state app') ''s1'' = Some s' \<and>
     messages s' = [0, 1] \<and>
     deref (store app') 0 =
       Some \<lparr>id_msg = ''u1'', role = USER, text_msg = ''Hi'', attachments = Some [],
             isStreaming = None, timestamp = 2\<rparr> \<and>
     deref (store app') 1 =
       Some \<lparr>id_msg = ''a1'', role = MODEL, text_msg = '''', attachments = None,
             isStreaming = Some True, timestamp = 4\<rparr> \<and>
     call_history call = [0])"
proof -
  from send_queues_user_then_placeholder[OF ex_idle_target ex_idle_lookup,
      of "''Hi''" "[]" "''u1''" "''a1''" 2 3 4]
  obtain r call app' s' where
    "handleSendMessage_body (state ex_idle) ''Hi'' [] ''u1'' ''a1'' 2 3 4
         \<lparr>hooks = ex_idle, queue = []\<rparr> = (r, Inr (Some call))"
    "state (hooks r) = state ex_idle"
    "flush (queue r) (hooks r) = Inr app'"
    "sessions (state app') ''s1'' = Some s'"
    "messages s' = [0, 1]"
    "deref (store app') 0 =
       Some \<lparr>id_msg = ''u1'', role = USER, text_msg = ''Hi'', attachments = Some [],
             isStreaming = None, timestamp = 2\<rparr>"
    "deref (store app') 1 =
       Some \<lparr>id_msg = ''a1'', role = MODEL, text_msg = '''', attachments = None,
             isStreaming = Some True, timestamp = 4\<rparr>"
    "call_history call = [0]"
    by (auto simp: ex_idle_eq)
  then show ?thesis using ex_idle_target(1) ex_idle_lookup by blast
qed

text \<open>
  C9 as stated fails: when the generation service is called the session's messages list
  has not grown. Neither message is in it; their appends are among the four updates in
  the queue.
\<close>

theorem send_not_applied_at_call_counterexample:
  "snd (handleSendMessage_body (state ex_idle) ''Hi'' [] ''u1'' ''a1'' 2 3 4
          \<lparr>hooks = ex_idle, queue = []\<rparr>) =
     Inr (Some \<lparr>call_model = FLASH, call_history = [0], call_text = ''Hi'',
                 call_attachments = []\<rparr>) \<and>
   map_option messages
     (sessions (state (hooks (fst (handleSendMessage_body (state ex_idle) ''Hi'' []
          ''u1'' ''a1'' 2 3 4 \<lparr>hooks = ex_idle, queue = []\<rparr>)))) ''s1'') = Some [] \<and>
   length (queue (fst (handleSendMessage_body (state ex_idle) ''Hi'' []
          ''u1'' ''a1'' 2 3 4 \<lparr>hooks = ex_idle, queue = []\<rparr>))) = 4"
  by (simp add: send_body_resolved[OF ex_idle_target(1,2)])
     (simp add: ex_idle_eq getSession_def)

text \<open>
  C10. The callbacks read the last element of the target session's messages list with no
  emptiness check: on a session with an empty list each of them throws a TypeError. On a
  session with at least one message none of them does, and for every turn in flight in a
  reachable state all three return normally.
\<close>

theorem callbacks_defined_for_turns_in_flight:
  "(reach app fl \<longrightarrow> (k, aid) \<in> fl \<longrightarrow>
      (\<exists>app'. onChunk (Some k) aid c app = Inr app') \<and>
      (\<exists>app'. onComplete (Some k) app = Inr app') \<and>
      (\<exists>app'. onError (Some k) e app = Inr app')) \<and>
   (sessions (state app) k = Some s \<longrightarrow> messages s \<noteq> [] \<longrightarrow>
      onChunk (Some k) aid c app \<noteq> Inl TypeError \<and>
      onComplete (Some k) app \<noteq> Inl TypeError \<and>
      onError (Some k) e app \<noteq> Inl TypeError) \<and>
   (k \<noteq> [] \<longrightarrow> sessions (state app) k = Some s \<longrightarrow> messages s = [] \<longrightarrow>
      onChunk (Some k) aid c app = Inl TypeError \<and>
      onComplete (Some k) app = Inl TypeError \<and>
      onError (Some k) e app = Inl TypeError)"
proof (intro conjI impI)
  assume r: "reach app fl" and t: "(k, aid) \<in> fl"
  from reach_inv[OF r] t obtain s m where
    tm: "k \<noteq> []" "sessions (state app) k = Some s" "id_ses s = k"
    "messages s \<noteq> []" "deref (store app) (last (messages s)) = Some m"
    by (rule turn_target)
  show "\<exists>app'. onChunk (Some k) aid c app = Inr app'"
    by (simp add: onChunk_last[OF tm])
  show "\<exists>app'. onComplete (Some k) app = Inr app'"
    by (simp add: onComplete_last[OF tm])
  show "\<exists>app'. onError (Some k) e app = Inr app'"
    by (simp add: onError_last[OF tm])
next
  assume "sessions (state app) k = Some s" "messages s \<noteq> []"
  then show "onChunk (Some k) aid c app \<noteq> Inl TypeError"
    by (simp add: onChunk_def updateCurrentSession_def getSession_def chunkUpdater_def Let_def
        split: option.splits)
next
  assume "sessions (state app) k = Some s" "messages s \<noteq> []"
  then show "onComplete (Some k) app \<noteq> Inl TypeError"
    by (simp add: onComplete_def updateCurrentSession_def getSession_def completeUpdater_def Let_def
        split: option.splits)
next
  assume "sessions (state app) k = Some s" "messages s \<noteq> []"
  then show "onError (Some k) e app \<noteq> Inl TypeError"
    by (simp add: onError_def updateCurrentSession_def getSession_def errorUpdater_def Let_def
        split: option.splits)
next
  assume "k \<noteq> []" "sessions (state app) k = Some s" "messages s = []"
  then show "onChunk (Some k) aid c app = Inl TypeError"
    by (simp add: onChunk_def updateCurrentSession_def getSession_def chunkUpdater_def)
next
  assume "k \<noteq> []" "sessions (state app) k = Some s" "messages s = []"
  then show "onComplete (Some k) app = Inl TypeError"
    by (simp add: onComplete_def updateCurrentSession_def getSession_def completeUpdater_def)
next
  assume "k \<noteq> []" "sessions (state app) k = Some s" "messages s = []"
  then show "onError (Some k) e app = Inl TypeError"
    by (simp add: onError_def updateCurrentSession_def getSession_def errorUpdater_def)
qed

theorem callbacks_defined_for_turns_in_flight_witness:
  "reach ex_streaming {(''s1'', ''a1'')} \<and>
   (\<exists>app'. onChunk (Some ''s1'') ''a1'' ''Hel'' ex_streaming = Inr app') \<and>
   (\<exists>app'. onComplete (Some ''s1'') ex_streaming = Inr app') \<and>
   (\<exists>app'. onError (Some ''s1'') None ex_streaming = Inr app') \<and>
   messages ex_session \<noteq> [] \<and>
   onChunk (Some ''s1'') ''a1'' ''Hel'' ex_streaming \<noteq> Inl TypeError \<and>
   sessions (state ex_idle) ''s1'' =
     Some \<lparr>id_ses = ''s1'', title = ''New Chat'', messages = [], updatedAt = 1\<rparr> \<and>
   onChunk (Some ''s1'') ''a1'' ''Hel'' ex_idle = Inl TypeError \<and>
   onComplete (Some ''s1'') ex_idle = Inl TypeError \<and>
   onError (Some ''s1'') None ex_idle = Inl TypeError"
proof -
  note A = callbacks_defined_for_turns_in_flight[where app = ex_streaming
      and fl = "{(''s1'', ''a1'')}" and k = "''s1''" and aid = "''a1''" and c = "''Hel''"
      and e = None and s = ex_session]
  note B = callbacks_defined_for_turns_in_flight[where app = ex_idle
      and k = "''s1''" and aid = "''a1''" and c = "''Hel''" and e = None
      and s = "\<lparr>id_ses = ''s1'', title = ''New Chat'', messages = [], updatedAt = 1\<rparr>"]
  from A reach_ex_streaming have 1:
    "(\<exists>app'. onChunk (Some ''s1'') ''a1'' ''Hel'' ex_streaming = Inr app') \<and>
     (\<exists>app'. onComplete (Some ''s1'') ex_streaming = Inr app') \<and>
     (\<exists>app'. onError (Some ''s1'') None ex_streaming = Inr app')"
    by simp
  from A ex_streaming_target have 2:
    "onChunk (Some ''s1'') ''a1'' ''Hel'' ex_streaming \<noteq> Inl TypeError"
    by simp
  from B ex_idle_target have 3:
    "onChunk (Some ''s1'') ''a1'' ''Hel'' ex_idle = Inl TypeError \<and>
     onComplete (Some ''s1'') ex_idle = Inl TypeError \<and>
     onError (Some ''s1'') None ex_idle = Inl TypeError"
    by simp
  from 1 2 3 reach_ex_streaming ex_streaming_target(3) ex_idle_target(3)
  show ?thesis by simp
qed

end
